theory Spec2Isabelle
  imports Complex_Main "HOL-Library.Sublist"
begin

section \<open>Python strings\<close>

text \<open>
  A Python \<open>str\<close> is modelled as a \<open>string\<close> (a list of characters, each a code point
  below 256). The operations below are the built-in string methods that
  \<open>app_working.py\<close> calls: \<open>startswith\<close>, the substring test \<open>sub in s\<close>, \<open>split\<close>,
  \<open>replace\<close> and \<open>strip\<close>.
\<close>

definition startswith :: "string \<Rightarrow> string \<Rightarrow> bool" where
  "startswith s p = prefix p s"

text \<open>\<open>str_in sub s\<close> is Python's \<open>sub in s\<close>: \<open>sub\<close> occurs in \<open>s\<close> as a contiguous run.\<close>

fun str_in :: "string \<Rightarrow> string \<Rightarrow> bool" where
  "str_in sub [] = (sub = [])"
| "str_in sub (c # cs) = (prefix sub (c # cs) \<or> str_in sub cs)"

text \<open>
  \<open>py_split sep s\<close> is \<open>s.split(sep)\<close>: the text is scanned from the left, every
  occurrence of the separator found ends a piece and the scan goes on behind it. The
  separators of the source are the literals \<open>/url?q=\<close>, \<open>&\<close>, \<open>/\<close>, \<open>?\<close> and \<open>@\<close>; the
  empty separator (a ValueError in Python) does not occur and splits nothing here.
\<close>

function py_split :: "string \<Rightarrow> string \<Rightarrow> string list" where
  "py_split sep [] = [[]]"
| "py_split sep (c # cs) =
     (if sep \<noteq> [] \<and> prefix sep (c # cs)
      then [] # py_split sep (drop (length sep) (c # cs))
      else (case py_split sep cs of
              [] \<Rightarrow> [[c]]
            | p # ps \<Rightarrow> (c # p) # ps))"
  by pat_completeness auto
termination
  by (relation "measure (\<lambda>(sep, s). length s)") auto

text \<open>\<open>py_join sep xs\<close> is \<open>sep.join(xs)\<close>.\<close>

fun py_join :: "string \<Rightarrow> string list \<Rightarrow> string" where
  "py_join sep [] = []"
| "py_join sep [x] = x"
| "py_join sep (x # y # ys) = x @ sep @ py_join sep (y # ys)"

text \<open>
  \<open>s.replace(old, new)\<close> for a non-empty \<open>old\<close> replaces the occurrences that \<open>split\<close>
  finds, so it is the pieces joined by \<open>new\<close>.
\<close>

definition py_replace :: "string \<Rightarrow> string \<Rightarrow> string \<Rightarrow> string" where
  "py_replace old new s = py_join new (py_split old s)"

text \<open>The white space that \<open>str.strip()\<close> removes, among the code points below 256.\<close>

definition is_space :: "char \<Rightarrow> bool" where
  "is_space c = (of_char c \<in> {9, 10, 11, 12, 13, 28, 29, 30, 31, 32, 133, 160 :: nat})"

definition py_strip :: "string \<Rightarrow> string" where
  "py_strip s = rev (dropWhile is_space (rev (dropWhile is_space s)))"

section \<open>SyncURLFilter\<close>

text \<open>
  Both filters start by removing a Google redirect:
  \<^verbatim>\<open>if url.startswith('/url?q='): url = url.split('/url?q=')[1].split('&')[0]\<close>.
  The two index reads cannot fail: a text that starts with the separator splits into at
  least two pieces (lemma \<open>split_redirect_pieces\<close>), and \<open>split\<close> never returns the empty
  list (lemma \<open>py_split_not_Nil\<close>). The branches for the lists that are too short are
  therefore never taken; they leave the text as it is.
\<close>

definition remove_google_redirect :: "string \<Rightarrow> string" where
  "remove_google_redirect url =
     (if startswith url ''/url?q=''
      then (case py_split ''/url?q='' url of
              _ # target # _ \<Rightarrow> (case py_split ''&'' target of t # _ \<Rightarrow> t | [] \<Rightarrow> target)
            | _ \<Rightarrow> url)
      else url)"

definition valid_patterns :: "string list" where
  "valid_patterns = [''/channel/'', ''/c/'', ''/@'', ''/user/'']"

text \<open>
  The argument is a \<open>string option\<close>: \<open>if not url: return None\<close> answers both Python's
  \<open>None\<close> and the empty string.
\<close>

definition filter_youtube_url :: "string option \<Rightarrow> string option" where
  "filter_youtube_url arg =
     (case arg of
        None \<Rightarrow> None
      | Some url0 \<Rightarrow>
          if url0 = [] then None
          else let url = remove_google_redirect url0 in
            if str_in ''youtube.com'' url \<and> list_ex (\<lambda>pattern. str_in pattern url) valid_patterns
            then Some url
            else None)"

definition filter_twitch_url :: "string option \<Rightarrow> string option" where
  "filter_twitch_url arg =
     (case arg of
        None \<Rightarrow> None
      | Some url0 \<Rightarrow>
          if url0 = [] then None
          else let url = remove_google_redirect url0 in
            if str_in ''twitch.tv'' url \<and> 4 \<le> length (py_split ''/'' url)
            then Some url
            else None)"

section \<open>SyncChannelFinder: search queries\<close>

definition reserved_paths :: "string list" where
  "reserved_paths = [''home'', ''explore'', ''notifications'', ''messages'', ''bookmarks'',
     ''lists'', ''profile'', ''more'', ''compose'', ''search'', ''settings'', ''help'']"

text \<open>
  The loop \<open>for i, part in enumerate(parts)\<close> of \<open>extract_name_from_url\<close>: the list is
  the parts from position \<open>i\<close> on, so \<open>i + 1 < len(parts)\<close> says that a next part exists.
  A reserved name does not end the loop; the scan goes on with the next part.
\<close>

fun scan_parts :: "string list \<Rightarrow> string" where
  "scan_parts [] = []"
| "scan_parts [part] = []"
| "scan_parts (part # next # parts) =
     (if part \<in> set [''x.com'', ''twitter.com'']
      then (let username_part = next;
                username_part = (if str_in ''?'' username_part
                                 then hd (py_split ''?'' username_part) else username_part);
                username_part = py_replace ''@'' [] username_part
            in if username_part \<notin> set reserved_paths
               then py_strip username_part
               else scan_parts (next # parts))
      else scan_parts (next # parts))"

text \<open>
  \<open>extract_name_from_url\<close> on a \<open>str\<close>. No operation in its body raises on a string, so the
  \<open>except\<close> branch is not part of the model. \<open>url.split('/')[-1]\<close> is the last piece.
\<close>

definition extract_name_from_url :: "string \<Rightarrow> string" where
  "extract_name_from_url url =
     (if str_in ''x.com'' url \<or> str_in ''twitter.com'' url
      then scan_parts (py_split ''/'' url)
      else (let path = (if str_in ''/'' url then last (py_split ''/'' url) else url);
                path = (if str_in ''?'' path then hd (py_split ''?'' path) else path);
                path = py_replace ''@'' [] path;
                cleaned_name = py_strip path
            in if cleaned_name \<noteq> [] \<and> 0 < length cleaned_name then cleaned_name else []))"

definition dquote :: char where
  "dquote = CHR 0x22"

text \<open>The f-string \<^verbatim>\<open>f'"{name}"'\<close>: the name between two double quotes.\<close>

definition quoted :: "string \<Rightarrow> string" where
  "quoted name = dquote # name @ [dquote]"

text \<open>
  The first lines of \<open>find_channels_for_user\<close>: \<open>query_candidates\<close> is the list
  \<open>queries\<close> before the empty ones are removed, \<open>search_queries\<close> the list after
  \<open>queries[:3]\<close>.
\<close>

definition query_candidates :: "string \<Rightarrow> string \<Rightarrow> string \<Rightarrow> string list" where
  "query_candidates username profile_name url =
     (let queries = [];
          queries = (if username \<noteq> [] then queries @ [quoted username] else queries);
          queries = (if profile_name \<noteq> [] \<and> profile_name \<noteq> username
                     then queries @ [quoted profile_name] else queries);
          queries = (if username \<noteq> [] \<and> profile_name \<noteq> []
                     then queries @ [username @ '' '' @ profile_name] else queries)
      in if url \<noteq> []
         then (let url_extracted_name = extract_name_from_url url
               in if url_extracted_name \<noteq> [] \<and> url_extracted_name \<notin> set [username, profile_name]
                  then queries @ [quoted url_extracted_name] else queries)
         else queries)"

definition search_queries :: "string \<Rightarrow> string \<Rightarrow> string \<Rightarrow> string list" where
  "search_queries username profile_name url =
     take 3 (filter (\<lambda>q. py_strip q \<noteq> [dquote, dquote] \<and> py_strip q \<noteq> [])
               (query_candidates username profile_name url))"

section \<open>SyncChannelFinder: the platform passes\<close>

datatype error = KeyError string | IndexError | TypeError | ZeroDivisionError | Exception

datatype platform = Youtube | Twitch

record search_result =
  r_title :: string
  r_url :: string
  r_snippet :: string

text \<open>
  The collaborators of \<open>find_channels_for_user\<close> that are not code of this file:
  \<^item> \<open>search_with_requests\<close> talks to the network and to the proxy pool, so it reads and
    changes a world \<open>'w\<close>: it returns a list of results or raises, and the next world;
  \<^item> \<open>enhanced_name_match\<close> and \<open>calculate_match_score\<close> are the two methods of
    \<open>EnhancedMatcher\<close> (module \<open>enhanced_matching\<close>); each returns a value or raises.
  The calls of \<open>st.info\<close>, \<open>st.success\<close> and \<open>st.error\<close> only log, and \<open>time.sleep\<close> only
  waits: they return and are left out.
\<close>

record 'w env =
  search_with_requests :: "string \<Rightarrow> platform \<Rightarrow> 'w \<Rightarrow> (error + search_result list) \<times> 'w"
  enhanced_name_match :: "string \<Rightarrow> string \<Rightarrow> string \<Rightarrow> error + bool"
  calculate_match_score :: "string \<Rightarrow> string \<Rightarrow> string \<Rightarrow> string \<Rightarrow> error + int"

record best_match =
  bm_score :: int
  bm_title :: "string option"
  bm_url :: "string option"

definition initial_best_match :: best_match where
  "initial_best_match = \<lparr>bm_score = 0, bm_title = None, bm_url = None\<rparr>"

definition filter_url :: "platform \<Rightarrow> string \<Rightarrow> string option" where
  "filter_url p u = (if p = Youtube then filter_youtube_url (Some u) else filter_twitch_url (Some u))"

text \<open>
  The body of \<open>for result in search_results\<close> for one result (lines 436 to 466):
  \<open>Inr None\<close> is \<open>continue\<close> or the end of the body without a match, \<open>Inr (Some m)\<close> is
  the assignment \<open>best_match = m\<close> followed by \<open>break\<close>, \<open>Inl e\<close> is an exception of the
  matcher, which leaves the loop for the \<open>except\<close> of the query.
\<close>

definition match_result ::
  "'w env \<Rightarrow> platform \<Rightarrow> string \<Rightarrow> string \<Rightarrow> search_result \<Rightarrow> error + best_match option" where
  "match_result E p username profile_name result =
     (case filter_url p (r_url result) of
        None \<Rightarrow> Inr None
      | Some clean_url \<Rightarrow>
          if clean_url = [] then Inr None
          else (case enhanced_name_match E clean_url username profile_name of
                  Inl e \<Rightarrow> Inl e
                | Inr accepted \<Rightarrow>
                    if accepted
                    then (case calculate_match_score E username profile_name (r_title result) clean_url of
                            Inl e \<Rightarrow> Inl e
                          | Inr match_score \<Rightarrow>
                              Inr (Some \<lparr>bm_score = (if match_score < 50 then 50 else match_score),
                                         bm_title = Some (r_title result),
                                         bm_url = Some clean_url\<rparr>))
                    else Inr None))"

fun scan_results ::
  "'w env \<Rightarrow> platform \<Rightarrow> string \<Rightarrow> string \<Rightarrow> search_result list \<Rightarrow> error + best_match option" where
  "scan_results E p username profile_name [] = Inr None"
| "scan_results E p username profile_name (result # results) =
     (case match_result E p username profile_name result of
        Inl e \<Rightarrow> Inl e
      | Inr (Some m) \<Rightarrow> Inr (Some m)
      | Inr None \<Rightarrow> scan_results E p username profile_name results)"

text \<open>
  The state of one platform pass: the variable \<open>best_match\<close>, the world, and two ghost
  lists that the claims speak about: \<open>history\<close>, every value \<open>best_match\<close> has held in
  order, and \<open>issued\<close>, every query passed to \<open>search_with_requests\<close> in order.
\<close>

record 'w pass_state =
  best :: best_match
  history :: "best_match list"
  issued :: "string list"
  world :: 'w

text \<open>
  The loop \<open>for query in queries\<close> (lines 430 to 481). An exception of the search or of
  the matcher is caught by \<open>except Exception\<close>, which goes on with the next query. After
  a query that ended without exception the loop stops if \<open>best_match['score'] >= 50\<close>
  (lines 469 and 477).
\<close>

fun query_loop ::
  "'w env \<Rightarrow> platform \<Rightarrow> string \<Rightarrow> string \<Rightarrow> string list \<Rightarrow> 'w pass_state \<Rightarrow> 'w pass_state" where
  "query_loop E p username profile_name [] st = st"
| "query_loop E p username profile_name (query # queries) st =
     (case search_with_requests E query p (world st) of
        (outcome, w') \<Rightarrow>
          let st1 = st\<lparr>issued := issued st @ [query], world := w'\<rparr> in
          (case outcome of
             Inl e \<Rightarrow> query_loop E p username profile_name queries st1
           | Inr search_results \<Rightarrow>
               (case (if search_results \<noteq> []
                      then scan_results E p username profile_name search_results
                      else Inr None) of
                  Inl e \<Rightarrow> query_loop E p username profile_name queries st1
                | Inr found \<Rightarrow>
                    let st2 = (case found of
                                 None \<Rightarrow> st1
                               | Some m \<Rightarrow> st1\<lparr>best := m, history := history st1 @ [m]\<rparr>)
                    in if 50 \<le> bm_score (best st2) then st2
                       else query_loop E p username profile_name queries st2)))"

definition platform_pass ::
  "'w env \<Rightarrow> platform \<Rightarrow> string \<Rightarrow> string \<Rightarrow> string list \<Rightarrow> 'w \<Rightarrow> 'w pass_state" where
  "platform_pass E p username profile_name queries w =
     query_loop E p username profile_name queries
       \<lparr>best = initial_best_match, history = [initial_best_match], issued = [], world = w\<rparr>"

record channels =
  youtube_url :: "string option"
  youtube_score :: int
  twitch_url :: "string option"
  twitch_score :: int

definition initial_channels :: channels where
  "initial_channels = \<lparr>youtube_url = None, youtube_score = 0, twitch_url = None, twitch_score = 0\<rparr>"

text \<open>Lines 484 to 490: the best match is stored only if its score is at least 50.\<close>

definition store_best_match :: "platform \<Rightarrow> best_match \<Rightarrow> channels \<Rightarrow> channels" where
  "store_best_match p m results =
     (if 50 \<le> bm_score m
      then (if p = Youtube
            then results\<lparr>youtube_url := bm_url m, youtube_score := bm_score m\<rparr>
            else results\<lparr>twitch_url := bm_url m, twitch_score := bm_score m\<rparr>)
      else results)"

definition score_of :: "platform \<Rightarrow> channels \<Rightarrow> int" where
  "score_of p results = (if p = Youtube then youtube_score results else twitch_score results)"

definition url_of :: "platform \<Rightarrow> channels \<Rightarrow> string option" where
  "url_of p results = (if p = Youtube then youtube_url results else twitch_url results)"

text \<open>\<open>for platform in ['youtube', 'twitch']\<close>, with the queries built once.\<close>

fun platform_loop ::
  "'w env \<Rightarrow> string \<Rightarrow> string \<Rightarrow> string list \<Rightarrow> platform list \<Rightarrow> channels \<times> 'w \<Rightarrow> channels \<times> 'w" where
  "platform_loop E username profile_name queries [] rw = rw"
| "platform_loop E username profile_name queries (p # ps) (results, w) =
     (let st = platform_pass E p username profile_name queries w
      in platform_loop E username profile_name queries ps
           (store_best_match p (best st) results, world st))"

definition find_channels_for_user ::
  "'w env \<Rightarrow> string \<Rightarrow> string \<Rightarrow> string \<Rightarrow> 'w \<Rightarrow> channels \<times> 'w" where
  "find_channels_for_user E username profile_name url w =
     platform_loop E username profile_name (search_queries username profile_name url)
       [Youtube, Twitch] (initial_channels, w)"

section \<open>process\_users\_with\_real\_logic\<close>

text \<open>
  A row of the input table is a list of (column, text) pairs, read by column name as
  \<open>row['username']\<close> does; reading a column the row does not have is a KeyError. A row of
  the output is the dictionary \<open>result_row\<close>, in the order its keys are written.
\<close>

type_synonym in_row = "(string \<times> string) list"

datatype cell = Str string | Num int

type_synonym out_row = "(string \<times> cell) list"

definition getitem :: "in_row \<Rightarrow> string \<Rightarrow> error + string" where
  "getitem row k = (case map_of row k of None \<Rightarrow> Inl (KeyError k) | Some v \<Rightarrow> Inr v)"

text \<open>\<open>x or ''\<close> for an optional string.\<close>

definition or_empty :: "string option \<Rightarrow> string" where
  "or_empty x = (case x of None \<Rightarrow> [] | Some s \<Rightarrow> s)"

definition result_row :: "string \<Rightarrow> string \<Rightarrow> string \<Rightarrow> string \<Rightarrow> channels \<Rightarrow> out_row" where
  "result_row username profile_name url followers ch =
     [(''username'', Str username),
      (''profile_name'', Str profile_name),
      (''url'', Str url),
      (''followers'', Str followers),
      (''youtube_url'', Str (or_empty (youtube_url ch))),
      (''youtube_score'', Num (youtube_score ch)),
      (''twitch_url'', Str (or_empty (twitch_url ch))),
      (''twitch_score'', Num (twitch_score ch))]"

definition empty_result_row :: "string \<Rightarrow> string \<Rightarrow> string \<Rightarrow> string \<Rightarrow> out_row" where
  "empty_result_row username profile_name url followers =
     [(''username'', Str username),
      (''profile_name'', Str profile_name),
      (''url'', Str url),
      (''followers'', Str followers),
      (''youtube_url'', Str []),
      (''youtube_score'', Num 0),
      (''twitch_url'', Str []),
      (''twitch_score'', Num 0)]"

text \<open>
  The call \<open>channel_finder.find_channels_for_user(username, profile_name, url)\<close> inside
  \<open>try\<close>: it returns the channels or raises, and changes the world.
\<close>

type_synonym 'w finder = "string \<Rightarrow> string \<Rightarrow> string \<Rightarrow> 'w \<Rightarrow> (error + channels) \<times> 'w"

text \<open>
  \<open>df.iterrows()\<close> yields each row with its index label. A table read by \<open>pd.read_csv\<close>
  has the labels 0, 1, 2, ... by default, and the texts of the first field as labels when
  the data rows have one field more than the header. A table is the list of its rows,
  each with its label; a label that is not a number behaves as a string label does.
\<close>

datatype index_label = Int_label int | Str_label string

type_synonym table = "(index_label \<times> in_row) list"

text \<open>
  \<open>progress_bar.progress(progress)\<close> is a call of the front end. It is given the
  fraction \<open>(i + 1) / total_users\<close> and returns or raises; it is a parameter of the model.
  The fraction is a Python float, modelled as the exact rational.
\<close>

type_synonym progress_bar = "rat \<Rightarrow> error option"

text \<open>
  The body of \<open>for i, row in df.iterrows()\<close>. Nothing before \<open>try\<close> is guarded: a missing
  column among the three reads ends the batch, and so does the progress report of
  lines 528 to 530, where \<open>i + 1\<close> is a TypeError for a label that is not a number and the
  progress bar may raise. \<open>row['followers']\<close> is read inside \<open>try\<close> and once more inside
  \<open>except\<close>: there a missing column ends the batch as well.
\<close>

definition process_row ::
  "'w finder \<Rightarrow> progress_bar \<Rightarrow> nat \<Rightarrow> index_label \<times> in_row \<Rightarrow> 'w \<Rightarrow> (error + out_row) \<times> 'w" where
  "process_row F progress_bar total_users labelled w =
     (case labelled of (i, row) \<Rightarrow>
     (case getitem row ''username'' of
        Inl e \<Rightarrow> (Inl e, w)
      | Inr username \<Rightarrow>
     (case getitem row ''profile_name'' of
        Inl e \<Rightarrow> (Inl e, w)
      | Inr profile_name \<Rightarrow>
     (case getitem row ''url'' of
        Inl e \<Rightarrow> (Inl e, w)
      | Inr url \<Rightarrow>
     (case i of
        Str_label s \<Rightarrow> (Inl TypeError, w)
      | Int_label n \<Rightarrow>
     if total_users = 0 then (Inl ZeroDivisionError, w)
     else
     (case progress_bar (of_int (n + 1) / of_nat total_users) of
        Some e \<Rightarrow> (Inl e, w)
      | None \<Rightarrow>
     (case F username profile_name url w of
        (outcome, w') \<Rightarrow>
          (case getitem row ''followers'' of
             Inl e \<Rightarrow> (Inl e, w')
           | Inr followers \<Rightarrow>
               (case outcome of
                  Inr ch \<Rightarrow> (Inr (result_row username profile_name url followers ch), w')
                | Inl e \<Rightarrow> (Inr (empty_result_row username profile_name url followers), w'))))))))))"

text \<open>The loop over the rows; \<open>total_users = len(df)\<close> is fixed before it.\<close>

fun process_loop ::
  "'w finder \<Rightarrow> progress_bar \<Rightarrow> nat \<Rightarrow> table \<Rightarrow> 'w \<Rightarrow> (error + out_row list) \<times> 'w" where
  "process_loop F progress_bar total_users [] w = (Inr [], w)"
| "process_loop F progress_bar total_users (labelled # df) w =
     (case process_row F progress_bar total_users labelled w of
        (Inl e, w') \<Rightarrow> (Inl e, w')
      | (Inr out, w') \<Rightarrow>
          (case process_loop F progress_bar total_users df w' of
             (Inl e, w'') \<Rightarrow> (Inl e, w'')
           | (Inr results, w'') \<Rightarrow> (Inr (out # results), w'')))"

definition process_users_with_real_logic ::
  "'w finder \<Rightarrow> progress_bar \<Rightarrow> table \<Rightarrow> 'w \<Rightarrow> (error + out_row list) \<times> 'w" where
  "process_users_with_real_logic F progress_bar df w = process_loop F progress_bar (length df) df w"

text \<open>The finder of the source: \<open>find_channels_for_user\<close>, which returns.\<close>

definition channel_finder :: "'w env \<Rightarrow> 'w finder" where
  "channel_finder E username profile_name url w =
     (case find_channels_for_user E username profile_name url w of (ch, w') \<Rightarrow> (Inr ch, w'))"

section \<open>SyncProxyManager\<close>

record proxy =
  http :: string
  https :: string

record proxy_manager =
  proxies :: "proxy list"
  current_index :: nat
  failed_proxies :: "string set"

text \<open>
  The \<open>while\<close> loop of \<open>get_next_proxy\<close>, with \<open>attempts\<close> as argument. Reading
  \<open>self.proxies[self.current_index]\<close> beyond the list is an IndexError.
\<close>

function get_next_loop :: "proxy_manager \<Rightarrow> nat \<Rightarrow> (error + proxy option) \<times> proxy_manager" where
  "get_next_loop pm attempts =
     (if attempts < length (proxies pm)
      then (if current_index pm < length (proxies pm)
            then (let proxy = proxies pm ! current_index pm;
                      pm' = pm\<lparr>current_index := (current_index pm + 1) mod length (proxies pm)\<rparr>
                  in if http proxy \<notin> failed_proxies pm'
                     then (Inr (Some proxy), pm')
                     else get_next_loop pm' (attempts + 1))
            else (Inl IndexError, pm))
      else (Inr None, pm))"
  by pat_completeness auto
termination
  by (relation "measure (\<lambda>(pm, attempts). length (proxies pm) - attempts)") auto

definition get_next_proxy :: "proxy_manager \<Rightarrow> (error + proxy option) \<times> proxy_manager" where
  "get_next_proxy pm = (if proxies pm = [] then (Inr None, pm) else get_next_loop pm 0)"

text \<open>\<open>if proxy:\<close> is false for \<open>None\<close>; a proxy dictionary has two keys and is true.\<close>

definition mark_proxy_failed :: "proxy_manager \<Rightarrow> proxy option \<Rightarrow> proxy_manager" where
  "mark_proxy_failed pm arg =
     (case arg of
        None \<Rightarrow> pm
      | Some proxy \<Rightarrow> pm\<lparr>failed_proxies := insert (http proxy) (failed_proxies pm)\<rparr>)"

text \<open>
  The life of a pool after its construction is a sequence of calls of its two methods;
  \<open>run_calls\<close> performs them in order and collects what the calls of \<open>get_next_proxy\<close>
  return.
\<close>

datatype pool_call = Get_next_proxy | Mark_proxy_failed "proxy option"

fun run_calls ::
  "pool_call list \<Rightarrow> proxy_manager \<Rightarrow> (error + proxy option) list \<times> proxy_manager" where
  "run_calls [] pm = ([], pm)"
| "run_calls (Get_next_proxy # cs) pm =
     (case get_next_proxy pm of
        (r, pm') \<Rightarrow> (case run_calls cs pm' of (rs, pm'') \<Rightarrow> (r # rs, pm'')))"
| "run_calls (Mark_proxy_failed arg # cs) pm = run_calls cs (mark_proxy_failed pm arg)"

declare get_next_loop.simps [simp del]

text \<open>A pool of two endpoints, as \<open>load_proxies\<close> builds them from \<open>ip\<close> and \<open>port\<close>.\<close>

definition proxy_a :: proxy where
  "proxy_a = \<lparr>http = ''http://10.0.0.1:8080'', https = ''http://10.0.0.1:8080''\<rparr>"

definition proxy_b :: proxy where
  "proxy_b = \<lparr>http = ''http://10.0.0.2:8080'', https = ''http://10.0.0.2:8080''\<rparr>"

definition two_proxy_pool :: proxy_manager where
  "two_proxy_pool = \<lparr>proxies = [proxy_a, proxy_b], current_index = 0, failed_proxies = {}\<rparr>"

section \<open>Notions used to state the properties\<close>

text \<open>The world in which the pass of a platform starts: Twitch is searched after YouTube.\<close>

definition pass_start ::
  "'w env \<Rightarrow> string \<Rightarrow> string \<Rightarrow> string list \<Rightarrow> platform \<Rightarrow> 'w \<Rightarrow> 'w" where
  "pass_start E username profile_name queries p w =
     (if p = Youtube then w
      else world (platform_pass E Youtube username profile_name queries w))"

text \<open>
  The value assigned to \<open>best_match\<close> (lines 454 to 461) for an accepted result with the
  computed score \<open>s\<close>.
\<close>

abbreviation floored :: "search_result \<Rightarrow> string \<Rightarrow> int \<Rightarrow> best_match" where
  "floored result clean_url s \<equiv>
     \<lparr>bm_score = (if s < 50 then 50 else s), bm_title = Some (r_title result),
      bm_url = Some clean_url\<rparr>"





definition required_columns :: "string list" where
  "required_columns = [''username'', ''profile_name'', ''url'', ''followers'']"



text \<open>A value that \<open>best_match\<close> takes at an assignment: a score of at least 50 and a URL.\<close>

definition accepted_match :: "best_match \<Rightarrow> bool" where
  "accepted_match m = (50 \<le> bm_score m \<and> (case bm_url m of None \<Rightarrow> False | Some c \<Rightarrow> c \<noteq> []))"

text \<open>
  The check of \<open>validate_csv\<close> that lets a table reach the batch:
  \<open>all(col in df.columns for col in required_columns)\<close>, here for the columns of a row.
\<close>

definition has_required_columns :: "in_row \<Rightarrow> bool" where
  "has_required_columns row = list_all (\<lambda>c. c \<in> set (map fst row)) required_columns"


text \<open>In an output row, the URL column is non-empty exactly if the score column is at least 50.\<close>

definition url_matches_score :: "out_row \<Rightarrow> string \<Rightarrow> string \<Rightarrow> bool" where
  "url_matches_score out url_column score_column =
     (case (map_of out url_column, map_of out score_column) of
        (Some (Str u), Some (Num s)) \<Rightarrow> (u \<noteq> []) = (50 \<le> s)
      | _ \<Rightarrow> False)"

section \<open>A small world for examples\<close>

text \<open>
  The world is the number of searches made so far. Every YouTube search returns a video
  page, then the channel \<open>@alicew\<close> titled \<open>Alice W\<close>, then the channel \<open>@alice2\<close>. The
  Twitch search raises when it is the second search of the run and returns one channel
  otherwise. The matcher accepts a URL that contains the username; it scores 80 when the
  title is the profile name, 95 for \<open>@alice2\<close>, and 30 otherwise.
\<close>

definition youtube_page :: "search_result list" where
  "youtube_page =
     [\<lparr>r_title = ''Alice W live'', r_url = ''https://www.youtube.com/watch?v=abc'', r_snippet = []\<rparr>,
      \<lparr>r_title = ''Alice W'', r_url = ''https://www.youtube.com/@alicew'', r_snippet = []\<rparr>,
      \<lparr>r_title = ''Alice Two'', r_url = ''https://www.youtube.com/@alice2'', r_snippet = []\<rparr>]"

definition twitch_page :: "search_result list" where
  "twitch_page =
     [\<lparr>r_title = ''alice - Twitch'', r_url = ''https://www.twitch.tv/alice'', r_snippet = []\<rparr>]"

definition example_search :: "string \<Rightarrow> platform \<Rightarrow> nat \<Rightarrow> (error + search_result list) \<times> nat" where
  "example_search query p w =
     (if p = Youtube then (Inr youtube_page, w + 1)
      else if w = 1 then (Inl Exception, w + 1)
      else (Inr twitch_page, w + 1))"

definition example_match :: "string \<Rightarrow> string \<Rightarrow> string \<Rightarrow> error + bool" where
  "example_match clean_url username profile_name = Inr (str_in username clean_url)"

definition example_score :: "string \<Rightarrow> string \<Rightarrow> string \<Rightarrow> string \<Rightarrow> error + int" where
  "example_score username profile_name title clean_url =
     (if title = profile_name then Inr 80
      else if str_in ''alice2'' clean_url then Inr 95
      else Inr 30)"

definition example_env :: "nat env" where
  "example_env = \<lparr>search_with_requests = example_search,
                   enhanced_name_match = example_match,
                   calculate_match_score = example_score\<rparr>"

text \<open>A finder that raises for the username \<open>carol\<close> and is \<open>channel_finder\<close> otherwise.\<close>

definition example_finder :: "nat finder" where
  "example_finder username profile_name url w =
     (if username = ''carol'' then (Inl Exception, w)
      else channel_finder example_env username profile_name url w)"

definition alice_row :: in_row where
  "alice_row = [(''username'', ''alice''), (''profile_name'', ''Alice W''),
                (''url'', ''https://x.com/alicew''), (''followers'', ''1200'')]"

definition carol_row :: in_row where
  "carol_row = [(''username'', ''carol''), (''profile_name'', ''Carol''),
                (''url'', ''https://x.com/carol''), (''followers'', ''7'')]"

definition bob_row :: in_row where
  "bob_row = [(''username'', ''bob''), (''profile_name'', ''Bob''),
              (''url'', []), (''followers'', ''3''), (''email'', ''bob@example.org'')]"

text \<open>The progress bar of the front end: a fraction outside 0 to 1 is refused.\<close>

definition example_progress :: progress_bar where
  "example_progress x = (if 0 \<le> x \<and> x \<le> 1 then None else Some Exception)"

definition example_table :: table where
  "example_table = [(Int_label 0, alice_row), (Int_label 1, carol_row), (Int_label 2, bob_row)]"

definition example_output :: "out_row list" where
  "example_output =
     [result_row ''alice'' ''Alice W'' ''https://x.com/alicew'' ''1200''
        \<lparr>youtube_url = Some ''https://www.youtube.com/@alicew'', youtube_score = 80,
         twitch_url = Some ''https://www.twitch.tv/alice'', twitch_score = 50\<rparr>,
      empty_result_row ''carol'' ''Carol'' ''https://x.com/carol'' ''7'',
      result_row ''bob'' ''Bob'' [] ''3'' initial_channels]"

section \<open>Facts about the string operations\<close>

lemma py_split_not_Nil: "py_split sep s \<noteq> []"
  by (induction sep s rule: py_split.induct) (auto split: list.splits)

text \<open>
  Three checks of the model of the string operations: \<open>sub in s\<close> is the contiguous
  sublist relation of the library, joining the pieces of a split with the separator gives
  the text back, and splitting at one character gives one piece more than the text has
  occurrences of it.
\<close>

lemma str_in_sublist: "str_in sub s \<longleftrightarrow> sublist sub s"
  by (induction s) (auto simp: sublist_Cons_right)

lemma py_join_head: "py_join sep ((c # p) # ps) = c # py_join sep (p # ps)"
  by (cases ps) simp_all

lemma py_join_split: "py_join sep (py_split sep s) = s"
proof (induction sep s rule: py_split.induct)
  case (1 sep)
  show ?case by simp
next
  case (2 sep c cs)
  show ?case
  proof (cases "sep \<noteq> [] \<and> prefix sep (c # cs)")
    case True
    obtain p ps where pp: "py_split sep (drop (length sep) (c # cs)) = p # ps"
      using py_split_not_Nil by (cases "py_split sep (drop (length sep) (c # cs))") auto
    from True have "c # cs = sep @ drop (length sep) (c # cs)"
      by (metis append_eq_conv_conj prefix_def)
    moreover from "2.IH"(1) True pp have "py_join sep (p # ps) = drop (length sep) (c # cs)" by simp
    ultimately show ?thesis using True pp by simp
  next
    case False
    obtain p ps where pp: "py_split sep cs = p # ps"
      using py_split_not_Nil by (cases "py_split sep cs") auto
    from "2.IH"(2) False pp have "py_join sep (p # ps) = cs" by simp
    moreover from False pp have "py_split sep (c # cs) = (c # p) # ps" by auto
    ultimately show ?thesis by (simp add: py_join_head)
  qed
qed

lemma length_split_char: "length (py_split [c] s) = Suc (count_list s c)"
  by (induction s) (auto split: list.splits simp: py_split_not_Nil)

lemma py_split_startswith:
  assumes "sep \<noteq> []" "prefix sep s"
  shows "py_split sep s = [] # py_split sep (drop (length sep) s)"
  using assms by (cases s) auto

lemma hd_py_split_prefix: "prefix (hd (py_split sep s)) s"
  by (induction sep s rule: py_split.induct) (auto split: list.splits)

lemma hd_py_split_no_sep:
  assumes "sep \<noteq> []"
  shows "\<not> prefix sep (hd (py_split sep s))"
proof (cases s)
  case Nil
  with assms show ?thesis by simp
next
  case (Cons c cs)
  show ?thesis
  proof (cases "prefix sep (c # cs)")
    case True
    with Cons assms show ?thesis by simp
  next
    case False
    have "prefix (hd (py_split sep s)) s" by (rule hd_py_split_prefix)
    with False Cons show ?thesis
      by (metis prefix_order.trans)
  qed
qed

lemma hd_split_char:
  "c \<notin> set t \<Longrightarrow> hd (py_split [c] (t @ c # r)) = t"
  by (induction t) (auto split: list.splits simp: py_split_not_Nil)

lemma not_prefix_across:
  assumes "\<not> prefix sep t" "c \<notin> set sep"
  shows "\<not> prefix sep (t @ c # rest)"
proof
  assume "prefix sep (t @ c # rest)"
  with assms(1) obtain us where us: "sep = t @ us" "prefix us (c # rest)"
    by (auto simp: prefix_append)
  show False
  proof (cases us)
    case Nil
    with us assms(1) show False by simp
  next
    case (Cons u us')
    with us have "u = c" by simp
    with Cons us assms(2) show False by simp
  qed
qed

lemma hd_split_literal_target:
  assumes "sep \<noteq> []" "c \<notin> set sep"
  shows "\<not> str_in sep t \<Longrightarrow> \<exists>r. hd (py_split sep (t @ c # rest)) = t @ c # r"
proof (induction t)
  case Nil
  have "\<not> prefix sep []" using assms(1) by simp
  then have "\<not> prefix sep (c # rest)" using not_prefix_across[of sep "[]" c rest] assms(2) by simp
  then show ?case by (simp split: list.splits add: py_split_not_Nil)
next
  case (Cons a t)
  then have np: "\<not> prefix sep (a # t)" and ns: "\<not> str_in sep t" by auto
  have "\<not> prefix sep ((a # t) @ c # rest)" by (rule not_prefix_across[OF np assms(2)])
  then have np': "\<not> prefix sep (a # t @ c # rest)" by simp
  from Cons.IH[OF ns] obtain r where r: "hd (py_split sep (t @ c # rest)) = t @ c # r" by blast
  obtain p ps where pp: "py_split sep (t @ c # rest) = p # ps"
    using py_split_not_Nil by (cases "py_split sep (t @ c # rest)") auto
  with r have "p = t @ c # r" by simp
  have "py_split sep (a # t @ c # rest) = (a # p) # ps"
    using np' pp by (subst py_split.simps) simp
  with \<open>p = t @ c # r\<close> show ?case by simp
qed


lemma split_redirect_pieces:
  assumes "startswith url ''/url?q=''"
  shows "py_split ''/url?q='' url = [] # py_split ''/url?q='' (drop 7 url)"
proof -
  have p: "prefix ''/url?q='' url" using assms by (simp add: startswith_def)
  have len: "length ''/url?q='' = 7" by simp
  have "py_split ''/url?q='' url = [] # py_split ''/url?q='' (drop (length ''/url?q='') url)"
    by (rule py_split_startswith) (use p in simp_all)
  then show ?thesis unfolding len .
qed

lemma remove_google_redirect_plain:
  "\<not> startswith url ''/url?q='' \<Longrightarrow> remove_google_redirect url = url"
  by (simp add: remove_google_redirect_def)

lemma remove_google_redirect_wrapped:
  assumes "startswith url ''/url?q=''"
  shows "remove_google_redirect url = hd (py_split ''&'' (hd (py_split ''/url?q='' (drop 7 url))))"
proof -
  obtain b bs where b: "py_split ''/url?q='' (drop 7 url) = b # bs"
    using py_split_not_Nil by (cases "py_split ''/url?q='' (drop 7 url)") auto
  obtain t ts where t: "py_split ''&'' b = t # ts"
    using py_split_not_Nil by (cases "py_split ''&'' b") auto
  show ?thesis
    using assms split_redirect_pieces[OF assms] b t
    by (simp add: remove_google_redirect_def)
qed

lemma remove_google_redirect_result:
  "\<not> startswith (remove_google_redirect url) ''/url?q=''"
proof (cases "startswith url ''/url?q=''")
  case False
  then show ?thesis by (simp add: remove_google_redirect_plain)
next
  case True
  let ?b = "hd (py_split ''/url?q='' (drop 7 url))"
  let ?v = "hd (py_split ''&'' ?b)"
  have v: "remove_google_redirect url = ?v" by (rule remove_google_redirect_wrapped[OF True])
  have vb: "prefix ?v ?b" by (rule hd_py_split_prefix)
  have nb: "\<not> prefix ''/url?q='' ?b" by (rule hd_py_split_no_sep) simp
  have "\<not> prefix ''/url?q='' ?v"
  proof
    assume "prefix ''/url?q='' ?v"
    then have "prefix ''/url?q='' ?b" using vb by (rule prefix_order.trans)
    with nb show False ..
  qed
  then show ?thesis unfolding v startswith_def .
qed

lemma str_in_not_Nil: "sub \<noteq> [] \<Longrightarrow> str_in sub s \<Longrightarrow> s \<noteq> []"
  by (cases s) auto

lemma filter_youtube_url_Some:
  assumes "filter_youtube_url arg = Some v"
  shows "v \<noteq> [] \<and> \<not> startswith v ''/url?q='' \<and> str_in ''youtube.com'' v
         \<and> list_ex (\<lambda>pattern. str_in pattern v) valid_patterns"
proof -
  from assms obtain u where u: "arg = Some u" "u \<noteq> []" "v = remove_google_redirect u"
    "str_in ''youtube.com'' v" "list_ex (\<lambda>pattern. str_in pattern v) valid_patterns"
    by (auto simp: filter_youtube_url_def Let_def split: option.splits if_splits)
  from u(4) have "v \<noteq> []" by (rule str_in_not_Nil[rotated]) simp
  with u remove_google_redirect_result show ?thesis by simp
qed

lemma filter_youtube_url_fixed:
  assumes "v \<noteq> []" "\<not> startswith v ''/url?q=''" "str_in ''youtube.com'' v"
    "list_ex (\<lambda>pattern. str_in pattern v) valid_patterns"
  shows "filter_youtube_url (Some v) = Some v"
  using assms by (simp add: filter_youtube_url_def remove_google_redirect_plain)

lemma filter_youtube_url_idem: "filter_youtube_url (filter_youtube_url arg) = filter_youtube_url arg"
proof (cases "filter_youtube_url arg")
  case None
  then show ?thesis by (simp add: filter_youtube_url_def)
next
  case (Some v)
  from filter_youtube_url_Some[OF Some] have "filter_youtube_url (Some v) = Some v"
    by (intro filter_youtube_url_fixed) simp_all
  with Some show ?thesis by simp
qed

lemma remove_google_redirect_literal:
  assumes "CHR ''&'' \<notin> set t" "\<not> str_in ''/url?q='' t"
  shows "remove_google_redirect (''/url?q='' @ t @ CHR ''&'' # rest) = t"
proof -
  let ?u = "''/url?q='' @ t @ CHR ''&'' # rest"
  have sw: "startswith ?u ''/url?q=''" by (simp add: startswith_def)
  have d: "drop 7 ?u = t @ CHR ''&'' # rest" by simp
  obtain r where r: "hd (py_split ''/url?q='' (t @ CHR ''&'' # rest)) = t @ CHR ''&'' # r"
    using hd_split_literal_target[of "''/url?q=''" "CHR ''&''" t rest] assms(2) by auto
  have "remove_google_redirect ?u = hd (py_split ''&'' (hd (py_split ''/url?q='' (drop 7 ?u))))"
    by (rule remove_google_redirect_wrapped[OF sw])
  also have "\<dots> = hd (py_split ''&'' (t @ CHR ''&'' # r))" unfolding d r ..
  also have "\<dots> = t" by (rule hd_split_char[OF assms(1)])
  finally show ?thesis .
qed

lemma filter_youtube_url_literal:
  assumes "CHR ''&'' \<notin> set t" "\<not> str_in ''/url?q='' t"
  shows "filter_youtube_url (Some (''/url?q='' @ t @ CHR ''&'' # rest)) = filter_youtube_url (Some t)"
proof -
  have np: "\<not> startswith t ''/url?q=''"
    using assms(2) by (cases t) (auto simp: startswith_def)
  have "remove_google_redirect t = t" by (rule remove_google_redirect_plain[OF np])
  moreover have "remove_google_redirect (''/url?q='' @ t @ CHR ''&'' # rest) = t"
    by (rule remove_google_redirect_literal[OF assms])
  moreover have "t = [] \<Longrightarrow> \<not> str_in ''youtube.com'' t" by simp
  ultimately show ?thesis
    unfolding filter_youtube_url_def by (cases "t = []") (simp_all add: Let_def)
qed


section \<open>The Twitch filter on the bare root\<close>

text \<open>
  Claim C4 says that \<open>filter_twitch_url("https://twitch.tv/")\<close> returns none and that
  \<open>filter_twitch_url("https://twitch.tv/somechannel")\<close> returns the URL unchanged. The
  code does the second, and it returns none for the bare root written without a trailing
  slash. On the bare root with the trailing slash the code differs from the claim: the
  text splits at its slashes into four pieces, the last of them empty, so the test
  \<open>len(url.split('/')) >= 4\<close> holds and the URL is returned.
\<close>

theorem filter_twitch_examples:
  "py_split ''/'' ''https://twitch.tv/'' = [''https:'', [], ''twitch.tv'', []]
   \<and> filter_twitch_url (Some ''https://twitch.tv/'') = Some ''https://twitch.tv/''
   \<and> filter_twitch_url (Some ''https://twitch.tv'') = None
   \<and> filter_twitch_url (Some ''https://twitch.tv/somechannel'') = Some ''https://twitch.tv/somechannel''"
  by code_simp

section \<open>The queries for one identity\<close>

text \<open>
  Claim C9: for the username \<open>alice\<close>, the profile name \<open>Alice W\<close> and the profile URL
  \<open>https://x.com/alicew\<close> the name taken from the URL is \<open>alicew\<close>, the candidates are
  \<open>"alice"\<close>, \<open>"Alice W"\<close>, \<open>alice Alice W\<close> and \<open>"alicew"\<close> in this order, and the list
  of queries searched is the first three of them.
\<close>

theorem alice_queries:
  "extract_name_from_url ''https://x.com/alicew'' = ''alicew''
   \<and> query_candidates ''alice'' ''Alice W'' ''https://x.com/alicew''
       = [quoted ''alice'', quoted ''Alice W'', ''alice Alice W'', quoted ''alicew'']
   \<and> search_queries ''alice'' ''Alice W'' ''https://x.com/alicew''
       = [quoted ''alice'', quoted ''Alice W'', ''alice Alice W'']"
  by code_simp

section \<open>The YouTube filter applied twice, and on redirects\<close>

text \<open>
  Counterexample to claim C5 as stated: the filter removes the wrapper \<open>/url?q=\<close> and
  what follows the first \<open>&\<close>, but it does not decode the target. For the channel URL
  \<open>https://www.youtube.com/@alice\<close> with its target percent-encoded (\<open>:\<close> as \<open>%3A\<close>, \<open>/\<close> as
  \<open>%2F\<close>, \<open>@\<close> as \<open>%40\<close>) none of the four path patterns occurs in the unwrapped text and
  the result is none, while the clean form is returned.
\<close>

theorem filter_youtube_encoded_counterexample:
  "filter_youtube_url (Some ''/url?q=https%3A%2F%2Fwww.youtube.com%2F%40alice&sa=U'') = None
   \<and> filter_youtube_url (Some ''https://www.youtube.com/@alice'')
       = Some ''https://www.youtube.com/@alice''"
  by code_simp

text \<open>
  Claim C5, amended: \<open>filter_youtube_url\<close> is idempotent, for every argument (none
  included); and for every target \<open>t\<close> that holds no \<open>&\<close> and no \<open>/url?q=\<close>, the wrapped
  form \<open>/url?q=t&...\<close> with the target written literally, not percent-encoded, has the
  same filtered result as \<open>t\<close> itself.
\<close>

theorem filter_youtube_url_idempotent:
  "filter_youtube_url (filter_youtube_url arg) = filter_youtube_url arg
   \<and> (CHR ''&'' \<notin> set t \<and> \<not> str_in ''/url?q='' t \<longrightarrow>
        filter_youtube_url (Some (''/url?q='' @ t @ CHR ''&'' # rest)) = filter_youtube_url (Some t))"
  using filter_youtube_url_idem filter_youtube_url_literal by blast

theorem filter_youtube_url_idempotent_witness:
  "filter_youtube_url (Some ''/url?q=https://www.youtube.com/@alice&sa=U'')
     = Some ''https://www.youtube.com/@alice''
   \<and> filter_youtube_url (filter_youtube_url (Some ''/url?q=https://www.youtube.com/@alice&sa=U''))
     = Some ''https://www.youtube.com/@alice''"
proof -
  have h: "CHR ''&'' \<notin> set ''https://www.youtube.com/@alice''
           \<and> \<not> str_in ''/url?q='' ''https://www.youtube.com/@alice''"
    by code_simp
  have clean: "filter_youtube_url (Some ''https://www.youtube.com/@alice'')
               = Some ''https://www.youtube.com/@alice''"
    by code_simp
  have "filter_youtube_url (Some (''/url?q='' @ ''https://www.youtube.com/@alice'' @ CHR ''&'' # ''sa=U''))
        = filter_youtube_url (Some ''https://www.youtube.com/@alice'')"
    using filter_youtube_url_idempotent
            [of "Some ''/url?q=https://www.youtube.com/@alice&sa=U''"
                "''https://www.youtube.com/@alice''" "''sa=U''"] h
    by blast
  then have wrapped: "filter_youtube_url (Some ''/url?q=https://www.youtube.com/@alice&sa=U'')
                      = Some ''https://www.youtube.com/@alice''"
    using clean by simp
  have "filter_youtube_url (filter_youtube_url (Some ''/url?q=https://www.youtube.com/@alice&sa=U''))
        = filter_youtube_url (Some ''/url?q=https://www.youtube.com/@alice&sa=U'')"
    using filter_youtube_url_idempotent
            [of "Some ''/url?q=https://www.youtube.com/@alice&sa=U''"
                "''https://www.youtube.com/@alice''" "''sa=U''"]
    by blast
  with wrapped show ?thesis by simp
qed

lemma filters_judge_target:
  "filter_twitch_url (Some u) = filter_twitch_url (Some (remove_google_redirect u))"
  "filter_youtube_url (Some u) = filter_youtube_url (Some (remove_google_redirect u))"
proof -
  let ?v = "remove_google_redirect u"
  have idem: "remove_google_redirect ?v = ?v"
    by (rule remove_google_redirect_plain[OF remove_google_redirect_result])
  have e: "u = [] \<Longrightarrow> ?v = []" by (simp add: remove_google_redirect_def startswith_def)
  have t: "?v = [] \<Longrightarrow> \<not> str_in ''twitch.tv'' ?v" by simp
  have y: "?v = [] \<Longrightarrow> \<not> str_in ''youtube.com'' ?v" by simp
  show "filter_twitch_url (Some u) = filter_twitch_url (Some ?v)"
    using e t unfolding filter_twitch_url_def by (auto simp: Let_def idem)
  show "filter_youtube_url (Some u) = filter_youtube_url (Some ?v)"
    using e y unfolding filter_youtube_url_def by (auto simp: Let_def idem)
qed

section \<open>The domain test of the filters\<close>

text \<open>
  Counterexample to claim C10 as stated: a text that starts with the redirect wrapper is
  judged by its unwrapped target, not as it stands. Each of the two texts below contains
  the platform's domain (and has six pieces between slashes, or contains \<open>/@\<close>), yet the
  target \<open>https://example.com/a\<close> does not, and the result is none.
\<close>

theorem filter_wrapped_counterexample:
  "str_in ''twitch.tv'' ''/url?q=https://example.com/a&ref=twitch.tv/x''
   \<and> 4 \<le> length (py_split ''/'' ''/url?q=https://example.com/a&ref=twitch.tv/x'')
   \<and> filter_twitch_url (Some ''/url?q=https://example.com/a&ref=twitch.tv/x'') = None
   \<and> str_in ''youtube.com'' ''/url?q=https://example.com/a&ref=youtube.com/@x''
   \<and> str_in ''/@'' ''/url?q=https://example.com/a&ref=youtube.com/@x''
   \<and> filter_youtube_url (Some ''/url?q=https://example.com/a&ref=youtube.com/@x'') = None"
  by code_simp

text \<open>
  Claim C10, amended: the domain test of both filters is substring containment, not a
  comparison of hosts. Every text that does not start with \<open>/url?q=\<close>, contains \<open>twitch.tv\<close>
  anywhere and splits at \<open>/\<close> into at least 4 pieces is returned by \<open>filter_twitch_url\<close>;
  every text that does not start with \<open>/url?q=\<close> and contains \<open>youtube.com\<close> together with
  one of \<open>/channel/\<close>, \<open>/c/\<close>, \<open>/@\<close>, \<open>/user/\<close> is returned by \<open>filter_youtube_url\<close>,
  whatever its host. A text that starts with \<open>/url?q=\<close> is judged by its unwrapped target:
  each filter gives on it the result it gives on the target.
\<close>

theorem filters_test_containment:
  "(\<not> startswith u ''/url?q='' \<and> str_in ''twitch.tv'' u \<and> 4 \<le> length (py_split ''/'' u)
      \<longrightarrow> filter_twitch_url (Some u) = Some u)
   \<and> (\<not> startswith v ''/url?q='' \<and> str_in ''youtube.com'' v
        \<and> (str_in ''/channel/'' v \<or> str_in ''/c/'' v \<or> str_in ''/@'' v \<or> str_in ''/user/'' v)
      \<longrightarrow> filter_youtube_url (Some v) = Some v)
   \<and> filter_twitch_url (Some u) = filter_twitch_url (Some (remove_google_redirect u))
   \<and> filter_youtube_url (Some v) = filter_youtube_url (Some (remove_google_redirect v))"
proof (intro conjI impI)
  assume a: "\<not> startswith u ''/url?q='' \<and> str_in ''twitch.tv'' u \<and> 4 \<le> length (py_split ''/'' u)"
  then have "u \<noteq> []" using str_in_not_Nil[of "''twitch.tv''" u] by simp
  with a show "filter_twitch_url (Some u) = Some u"
    by (simp add: filter_twitch_url_def remove_google_redirect_plain)
next
  assume a: "\<not> startswith v ''/url?q='' \<and> str_in ''youtube.com'' v
        \<and> (str_in ''/channel/'' v \<or> str_in ''/c/'' v \<or> str_in ''/@'' v \<or> str_in ''/user/'' v)"
  then have "v \<noteq> []" using str_in_not_Nil[of "''youtube.com''" v] by simp
  moreover from a have "list_ex (\<lambda>pattern. str_in pattern v) valid_patterns"
    by (simp add: valid_patterns_def)
  ultimately show "filter_youtube_url (Some v) = Some v"
    using a by (intro filter_youtube_url_fixed) simp_all
next
  show "filter_twitch_url (Some u) = filter_twitch_url (Some (remove_google_redirect u))"
    by (rule filters_judge_target)
next
  show "filter_youtube_url (Some v) = filter_youtube_url (Some (remove_google_redirect v))"
    by (rule filters_judge_target)
qed

theorem filters_test_containment_witness:
  "filter_twitch_url (Some ''https://evil.example/twitch.tv/a'') = Some ''https://evil.example/twitch.tv/a''
   \<and> filter_youtube_url (Some ''https://evil.example/youtube.com/@a'')
       = Some ''https://evil.example/youtube.com/@a''"
proof -
  have t: "\<not> startswith ''https://evil.example/twitch.tv/a'' ''/url?q=''
           \<and> str_in ''twitch.tv'' ''https://evil.example/twitch.tv/a''
           \<and> 4 \<le> length (py_split ''/'' ''https://evil.example/twitch.tv/a'')"
    by code_simp
  have y: "\<not> startswith ''https://evil.example/youtube.com/@a'' ''/url?q=''
           \<and> str_in ''youtube.com'' ''https://evil.example/youtube.com/@a''
           \<and> (str_in ''/channel/'' ''https://evil.example/youtube.com/@a''
                \<or> str_in ''/c/'' ''https://evil.example/youtube.com/@a''
                \<or> str_in ''/@'' ''https://evil.example/youtube.com/@a''
                \<or> str_in ''/user/'' ''https://evil.example/youtube.com/@a'')"
    by code_simp
  show ?thesis
    using filters_test_containment
            [of "''https://evil.example/twitch.tv/a''" "''https://evil.example/youtube.com/@a''"] t y
    by blast
qed

section \<open>The proxy pool\<close>

lemma get_next_loop_result:
  "get_next_loop pm n = (r, pm') \<Longrightarrow>
     failed_proxies pm' = failed_proxies pm \<and> proxies pm' = proxies pm
     \<and> (\<forall>p. r = Inr (Some p) \<longrightarrow> http p \<notin> failed_proxies pm \<and> p \<in> set (proxies pm))"
proof (induction pm n arbitrary: r pm' rule: get_next_loop.induct)
  case (1 pm attempts)
  show ?case
  proof (cases "attempts < length (proxies pm) \<and> current_index pm < length (proxies pm)")
    case False
    with "1.prems" show ?thesis
      by (subst (asm) get_next_loop.simps) (auto split: if_splits)
  next
    case True
    let ?proxy = "proxies pm ! current_index pm"
    let ?pm1 = "pm\<lparr>current_index := (current_index pm + 1) mod length (proxies pm)\<rparr>"
    show ?thesis
    proof (cases "http ?proxy \<notin> failed_proxies ?pm1")
      case free: True
      with True "1.prems" have "r = Inr (Some ?proxy)" "pm' = ?pm1"
        by (subst (asm) get_next_loop.simps, simp add: Let_def)+
      with free True show ?thesis by simp
    next
      case failed: False
      with True "1.prems" have "get_next_loop ?pm1 (attempts + 1) = (r, pm')"
        by (subst (asm) get_next_loop.simps) (simp add: Let_def)
      from "1.IH"[OF _ _ refl refl _ this] True failed show ?thesis by simp
    qed
  qed
qed

lemma get_next_proxy_result:
  assumes "get_next_proxy pm = (r, pm')"
  shows "failed_proxies pm' = failed_proxies pm \<and> proxies pm' = proxies pm
     \<and> (\<forall>p. r = Inr (Some p) \<longrightarrow> http p \<notin> failed_proxies pm \<and> p \<in> set (proxies pm))"
proof (cases "proxies pm = []")
  case True
  with assms show ?thesis by (auto simp: get_next_proxy_def)
next
  case False
  with assms have "get_next_loop pm 0 = (r, pm')" by (simp add: get_next_proxy_def)
  then show ?thesis by (rule get_next_loop_result)
qed

lemma mark_proxy_failed_grows:
  "failed_proxies pm \<subseteq> failed_proxies (mark_proxy_failed pm arg)"
  by (auto simp: mark_proxy_failed_def split: option.splits)

lemma run_calls_excluded:
  "k \<in> failed_proxies pm \<Longrightarrow> run_calls cs pm = (rs, pm') \<Longrightarrow>
     k \<in> failed_proxies pm' \<and> (\<forall>p. Inr (Some p) \<in> set rs \<longrightarrow> http p \<noteq> k)"
proof (induction cs pm arbitrary: rs pm' rule: run_calls.induct)
  case (1 pm)
  then show ?case by simp
next
  case (2 cs pm)
  obtain r pm1 where g: "get_next_proxy pm = (r, pm1)" by (cases "get_next_proxy pm")
  obtain rs1 pm2 where rc: "run_calls cs pm1 = (rs1, pm2)" by (cases "run_calls cs pm1")
  from g rc "2.prems"(2) have eq: "rs = r # rs1" "pm' = pm2" by simp_all
  note gr = get_next_proxy_result[OF g]
  from gr "2.prems"(1) have k1: "k \<in> failed_proxies pm1" by simp
  from "2.IH"[OF g[symmetric] k1 rc] have ih: "k \<in> failed_proxies pm2"
    "\<forall>p. Inr (Some p) \<in> set rs1 \<longrightarrow> http p \<noteq> k" by simp_all
  from gr "2.prems"(1) have "\<forall>p. r = Inr (Some p) \<longrightarrow> http p \<noteq> k" by auto
  with ih eq show ?case by auto
next
  case (3 arg cs pm)
  from "3.prems"(1) mark_proxy_failed_grows have "k \<in> failed_proxies (mark_proxy_failed pm arg)" by blast
  from "3.IH"[OF this] "3.prems"(2) show ?case by simp
qed

text \<open>
  Claim C7: once \<open>mark_proxy_failed(e)\<close> has been called on a pool, no later call of
  \<open>get_next_proxy\<close> on that pool returns \<open>e\<close>, whatever calls of the two methods follow
  and however many rotations they make: \<open>e\<close> is not among the values returned.
\<close>

theorem failed_proxy_never_returned:
  "Inr (Some e) \<notin> set (fst (run_calls cs (mark_proxy_failed pm (Some e))))"
proof -
  obtain rs pm' where rc: "run_calls cs (mark_proxy_failed pm (Some e)) = (rs, pm')"
    by (cases "run_calls cs (mark_proxy_failed pm (Some e))")
  have "http e \<in> failed_proxies (mark_proxy_failed pm (Some e))"
    by (simp add: mark_proxy_failed_def)
  from run_calls_excluded[OF this rc] rc show ?thesis by auto
qed

theorem failed_proxy_never_returned_witness:
  "fst (run_calls [Get_next_proxy, Get_next_proxy, Get_next_proxy]
          (mark_proxy_failed two_proxy_pool (Some proxy_a)))
     = [Inr (Some proxy_b), Inr (Some proxy_b), Inr (Some proxy_b)]
   \<and> fst (run_calls [Get_next_proxy, Get_next_proxy] two_proxy_pool)
     = [Inr (Some proxy_a), Inr (Some proxy_b)]
   \<and> Inr (Some proxy_a) \<notin> set (fst (run_calls [Get_next_proxy, Get_next_proxy, Get_next_proxy]
          (mark_proxy_failed two_proxy_pool (Some proxy_a))))"
proof -
  have "fst (run_calls [Get_next_proxy, Get_next_proxy, Get_next_proxy]
          (mark_proxy_failed two_proxy_pool (Some proxy_a)))
     = [Inr (Some proxy_b), Inr (Some proxy_b), Inr (Some proxy_b)]"
    by code_simp
  moreover have "fst (run_calls [Get_next_proxy, Get_next_proxy] two_proxy_pool)
     = [Inr (Some proxy_a), Inr (Some proxy_b)]"
    by code_simp
  ultimately show ?thesis
    using failed_proxy_never_returned
            [of proxy_a "[Get_next_proxy, Get_next_proxy, Get_next_proxy]" two_proxy_pool]
    by blast
qed

section \<open>Facts about the channel finder and the batch\<close>

lemma filter_url_nonempty: "filter_url p u = Some c \<Longrightarrow> c \<noteq> []"
  by (auto simp: filter_url_def filter_youtube_url_def filter_twitch_url_def Let_def
           split: if_splits dest: str_in_not_Nil[rotated])

lemma match_result_accepted:
  "match_result E p username profile_name result = Inr (Some m) \<Longrightarrow> accepted_match m"
  by (auto simp: match_result_def accepted_match_def split: option.splits if_splits sum.splits)

lemma scan_results_accepted:
  "scan_results E p username profile_name results = Inr (Some m) \<Longrightarrow> accepted_match m"
proof (induction results)
  case Nil
  then show ?case by simp
next
  case (Cons result results)
  then show ?case
    by (auto split: sum.splits option.splits dest: match_result_accepted)
qed

lemma query_loop_outcome:
  "(history (query_loop E p username profile_name queries st) = history st
      \<and> best (query_loop E p username profile_name queries st) = best st)
   \<or> (\<exists>m. accepted_match m
          \<and> history (query_loop E p username profile_name queries st) = history st @ [m]
          \<and> best (query_loop E p username profile_name queries st) = m)"
proof (induction queries arbitrary: st)
  case Nil
  then show ?case by simp
next
  case (Cons query queries)
  obtain outcome w' where s: "search_with_requests E query p (world st) = (outcome, w')"
    by (cases "search_with_requests E query p (world st)")
  define st1 where "st1 = st\<lparr>issued := issued st @ [query], world := w'\<rparr>"
  have h1: "history st1 = history st" "best st1 = best st" by (simp_all add: st1_def)
  note ih = Cons.IH[of st1, unfolded h1]
  show ?case
  proof (cases outcome)
    case (Inl e)
    with s have "query_loop E p username profile_name (query # queries) st
                 = query_loop E p username profile_name queries st1"
      by (simp add: st1_def)
    with ih show ?thesis by simp
  next
    case (Inr search_results)
    let ?scan = "if search_results \<noteq> []
                 then scan_results E p username profile_name search_results else Inr None"
    show ?thesis
    proof (cases ?scan)
      case (Inl e)
      with s Inr have "query_loop E p username profile_name (query # queries) st
                   = query_loop E p username profile_name queries st1"
        by (simp add: st1_def)
      with ih show ?thesis by simp
    next
      case found: (Inr found)
      show ?thesis
      proof (cases found)
        case None
        with s Inr found have "query_loop E p username profile_name (query # queries) st
              = (if 50 \<le> bm_score (best st1) then st1
                 else query_loop E p username profile_name queries st1)"
          by (simp add: st1_def Let_def)
        with ih h1 show ?thesis by (cases "50 \<le> bm_score (best st1)") simp_all
      next
        case (Some m)
        with found have "scan_results E p username profile_name search_results = Inr (Some m)"
          by (simp split: if_splits)
        then have acc: "accepted_match m" by (rule scan_results_accepted)
        then have "50 \<le> bm_score m" by (simp add: accepted_match_def)
        with s Inr found Some have "query_loop E p username profile_name (query # queries) st
              = st1\<lparr>best := m, history := history st1 @ [m]\<rparr>"
          by (simp add: st1_def Let_def)
        with acc h1 show ?thesis by simp
      qed
    qed
  qed
qed

lemma platform_pass_outcome:
  "(history (platform_pass E p username profile_name queries w) = [initial_best_match]
      \<and> best (platform_pass E p username profile_name queries w) = initial_best_match)
   \<or> (\<exists>m. accepted_match m
          \<and> history (platform_pass E p username profile_name queries w) = [initial_best_match, m]
          \<and> best (platform_pass E p username profile_name queries w) = m)"
  using query_loop_outcome[of E p username profile_name queries
          "\<lparr>best = initial_best_match, history = [initial_best_match], issued = [], world = w\<rparr>"]
  by (simp add: platform_pass_def)


lemma find_channels_unfold:
  "fst (find_channels_for_user E username profile_name url w) =
     store_best_match Twitch
       (best (platform_pass E Twitch username profile_name (search_queries username profile_name url)
                (pass_start E username profile_name (search_queries username profile_name url) Twitch w)))
       (store_best_match Youtube
          (best (platform_pass E Youtube username profile_name (search_queries username profile_name url)
                   (pass_start E username profile_name (search_queries username profile_name url) Youtube w)))
          initial_channels)"
  by (simp add: find_channels_for_user_def pass_start_def Let_def)

lemma score_of_store:
  "score_of p (store_best_match Twitch bt (store_best_match Youtube bu initial_channels))
     = (let b = (if p = Youtube then bu else bt) in if 50 \<le> bm_score b then bm_score b else 0)"
  by (cases p) (simp_all add: score_of_def store_best_match_def initial_channels_def Let_def)

lemma url_of_store:
  "url_of p (store_best_match Twitch bt (store_best_match Youtube bu initial_channels))
     = (let b = (if p = Youtube then bu else bt) in if 50 \<le> bm_score b then bm_url b else None)"
  by (cases p) (simp_all add: url_of_def store_best_match_def initial_channels_def Let_def)

lemma find_channels_platform:
  "score_of p (fst (find_channels_for_user E username profile_name url w))
     = (let b = best (platform_pass E p username profile_name (search_queries username profile_name url)
                        (pass_start E username profile_name (search_queries username profile_name url) p w))
        in if 50 \<le> bm_score b then bm_score b else 0)
   \<and> url_of p (fst (find_channels_for_user E username profile_name url w))
     = (let b = best (platform_pass E p username profile_name (search_queries username profile_name url)
                        (pass_start E username profile_name (search_queries username profile_name url) p w))
        in if 50 \<le> bm_score b then bm_url b else None)"
  unfolding find_channels_unfold score_of_store url_of_store
  by (cases p) (simp_all add: Let_def)

lemma find_channels_url_iff_score:
  "(score_of p (fst (find_channels_for_user E username profile_name url w)) = 0
      \<and> url_of p (fst (find_channels_for_user E username profile_name url w)) = None)
   \<or> (50 \<le> score_of p (fst (find_channels_for_user E username profile_name url w))
      \<and> (\<exists>c. url_of p (fst (find_channels_for_user E username profile_name url w)) = Some c \<and> c \<noteq> []))"
proof -
  let ?qs = "search_queries username profile_name url"
  let ?st = "platform_pass E p username profile_name ?qs (pass_start E username profile_name ?qs p w)"
  from platform_pass_outcome[of E p username profile_name ?qs "pass_start E username profile_name ?qs p w"]
  consider "best ?st = initial_best_match" | "accepted_match (best ?st)" by auto
  then show ?thesis
  proof cases
    case 1
    then show ?thesis
      using find_channels_platform[of p E username profile_name url w]
      by (simp add: Let_def initial_best_match_def)
  next
    case 2
    then obtain c where "50 \<le> bm_score (best ?st)" "bm_url (best ?st) = Some c" "c \<noteq> []"
      by (auto simp: accepted_match_def split: option.splits)
    then show ?thesis
      using find_channels_platform[of p E username profile_name url w]
      by (simp add: Let_def)
  qed
qed












lemma process_row_cases:
  assumes "process_row F progress_bar total_users labelled w = (Inr out, w')"
  shows "\<exists>u p l f. out = empty_result_row u p l f
           \<or> (\<exists>ch w0. fst (F u p l w0) = Inr ch \<and> out = result_row u p l f ch)"
  using assms unfolding process_row_def
  by (auto split: sum.splits prod.splits index_label.splits option.splits if_splits) (metis fst_conv)+

lemma process_loop_rows:
  "fst (process_loop F progress_bar total_users df w) = Inr outs \<Longrightarrow> out \<in> set outs \<Longrightarrow>
     \<exists>u p l f. out = empty_result_row u p l f
           \<or> (\<exists>ch w0. fst (F u p l w0) = Inr ch \<and> out = result_row u p l f ch)"
proof (induction df arbitrary: w outs)
  case Nil
  then show ?case by simp
next
  case (Cons labelled df)
  obtain r w1 where pr: "process_row F progress_bar total_users labelled w = (r, w1)"
    by (cases "process_row F progress_bar total_users labelled w")
  obtain rs w2 where pu: "process_loop F progress_bar total_users df w1 = (rs, w2)"
    by (cases "process_loop F progress_bar total_users df w1")
  from Cons.prems(1) pr pu obtain o1 os where r: "r = Inr o1" "rs = Inr os" "outs = o1 # os"
    by (auto split: sum.splits)
  from Cons.prems(2) r consider "out = o1" | "out \<in> set os" by auto
  then show ?case
  proof cases
    case 1
    with pr r process_row_cases[of F progress_bar total_users labelled w o1 w1] show ?thesis by simp
  next
    case 2
    from pu r have "fst (process_loop F progress_bar total_users df w1) = Inr os" by simp
    from Cons.IH[OF this 2] show ?thesis .
  qed
qed

lemma process_users_rows:
  "fst (process_users_with_real_logic F progress_bar df w) = Inr outs \<Longrightarrow> out \<in> set outs \<Longrightarrow>
     \<exists>u p l f. out = empty_result_row u p l f
           \<or> (\<exists>ch w0. fst (F u p l w0) = Inr ch \<and> out = result_row u p l f ch)"
  unfolding process_users_with_real_logic_def by (rule process_loop_rows)

lemma empty_row_matches:
  "url_matches_score (empty_result_row u p l f) ''youtube_url'' ''youtube_score''
   \<and> url_matches_score (empty_result_row u p l f) ''twitch_url'' ''twitch_score''"
  by (simp add: url_matches_score_def empty_result_row_def)

lemma result_row_matches:
  assumes "ch = fst (find_channels_for_user E u p l w)"
  shows "url_matches_score (result_row u p l f ch) ''youtube_url'' ''youtube_score''
   \<and> url_matches_score (result_row u p l f ch) ''twitch_url'' ''twitch_score''"
proof -
  have y: "(or_empty (youtube_url ch) \<noteq> []) = (50 \<le> youtube_score ch)"
    using find_channels_url_iff_score[of Youtube E u p l w] assms
    by (auto simp: score_of_def url_of_def or_empty_def)
  have t: "(or_empty (twitch_url ch) \<noteq> []) = (50 \<le> twitch_score ch)"
    using find_channels_url_iff_score[of Twitch E u p l w] assms
    by (auto simp: score_of_def url_of_def or_empty_def)
  from y t show ?thesis by (simp add: url_matches_score_def result_row_def)
qed


lemma match_result_computed:
  assumes "filter_url p (r_url result) = Some clean_url"
    "enhanced_name_match E clean_url username profile_name = Inr True"
    "calculate_match_score E username profile_name (r_title result) clean_url = Inr s"
  shows "match_result E p username profile_name result
           = Inr (Some \<lparr>bm_score = (if s < 50 then 50 else s),
                        bm_title = Some (r_title result), bm_url = Some clean_url\<rparr>)"
proof -
  from assms(1) have "clean_url \<noteq> []" by (rule filter_url_nonempty)
  with assms show ?thesis by (simp add: match_result_def)
qed

lemma scan_results_first:
  assumes "\<forall>x\<in>set skipped. filter_url p (r_url x) = None"
    "match_result E p username profile_name result = Inr (Some m)"
  shows "scan_results E p username profile_name (skipped @ result # later) = Inr (Some m)"
  using assms by (induction skipped) (simp_all add: match_result_def)

lemma history_tail_accepted:
  "list_all accepted_match (tl (history (platform_pass E p username profile_name queries w)))"
  using platform_pass_outcome[of E p username profile_name queries w] by auto

section \<open>The floor of the score\<close>

lemma match_result_rejected:
  assumes "filter_url p (r_url x) = None
           \<or> (\<exists>c. filter_url p (r_url x) = Some c
                  \<and> enhanced_name_match E c username profile_name = Inr False)"
  shows "match_result E p username profile_name x = Inr None"
  using assms by (auto simp: match_result_def)

lemma scan_results_skip:
  assumes "\<forall>x\<in>set skipped. match_result E p username profile_name x = Inr None"
    "match_result E p username profile_name result = Inr (Some m)"
  shows "scan_results E p username profile_name (skipped @ result # later) = Inr (Some m)"
  using assms by (induction skipped) simp_all

lemma match_result_sound:
  assumes "match_result E p username profile_name result = Inr (Some m)"
  shows "\<exists>clean_url s. filter_url p (r_url result) = Some clean_url
           \<and> enhanced_name_match E clean_url username profile_name = Inr True
           \<and> calculate_match_score E username profile_name (r_title result) clean_url = Inr s
           \<and> m = floored result clean_url s"
  using assms
  by (auto simp: match_result_def split: option.splits if_splits sum.splits)

lemma scan_results_sound:
  "scan_results E p username profile_name results = Inr (Some m) \<Longrightarrow>
     \<exists>result clean_url s. result \<in> set results
           \<and> filter_url p (r_url result) = Some clean_url
           \<and> enhanced_name_match E clean_url username profile_name = Inr True
           \<and> calculate_match_score E username profile_name (r_title result) clean_url = Inr s
           \<and> m = floored result clean_url s"
proof (induction results)
  case Nil
  then show ?case by simp
next
  case (Cons result results)
  show ?case
  proof (cases "match_result E p username profile_name result")
    case (Inl e)
    with Cons.prems show ?thesis by simp
  next
    case (Inr found)
    show ?thesis
    proof (cases found)
      case None
      with Inr Cons.prems have "scan_results E p username profile_name results = Inr (Some m)"
        by simp
      from Cons.IH[OF this] obtain r c t where "r \<in> set results"
        "filter_url p (r_url r) = Some c"
        "enhanced_name_match E c username profile_name = Inr True"
        "calculate_match_score E username profile_name (r_title r) c = Inr t"
        "m = floored r c t" by blast
      then show ?thesis by (intro exI[of _ r] exI[of _ c] exI[of _ t]) simp
    next
      case (Some m')
      with Inr Cons.prems have "m' = m" by simp
      with Inr Some have "match_result E p username profile_name result = Inr (Some m)" by simp
      from match_result_sound[OF this] obtain c t where
        "filter_url p (r_url result) = Some c"
        "enhanced_name_match E c username profile_name = Inr True"
        "calculate_match_score E username profile_name (r_title result) c = Inr t"
        "m = floored result c t" by blast
      then show ?thesis by (intro exI[of _ result] exI[of _ c] exI[of _ t]) simp
    qed
  qed
qed

lemma query_loop_step_match:
  assumes "search_with_requests E query p (world st) = (Inr results, w1)"
    and "scan_results E p username profile_name results = Inr (Some m)"
  shows "query_loop E p username profile_name (query # queries) st
           = st\<lparr>issued := issued st @ [query], world := w1, best := m,
                history := history st @ [m]\<rparr>"
proof -
  from assms(2) have ne: "results \<noteq> []" by (cases results) auto
  from assms(2) have "accepted_match m" by (rule scan_results_accepted)
  then have "50 \<le> bm_score m" by (simp add: accepted_match_def)
  with assms ne show ?thesis by (simp add: Let_def)
qed

lemma query_loop_append:
  "bm_score (best (query_loop E p username profile_name before st)) < 50 \<Longrightarrow>
     query_loop E p username profile_name (before @ rest) st
       = query_loop E p username profile_name rest (query_loop E p username profile_name before st)"
proof (induction before arbitrary: st)
  case Nil
  then show ?case by simp
next
  case (Cons query before)
  obtain outcome w' where s: "search_with_requests E query p (world st) = (outcome, w')"
    by (cases "search_with_requests E query p (world st)")
  define st1 where "st1 = st\<lparr>issued := issued st @ [query], world := w'\<rparr>"
  show ?case
  proof (cases outcome)
    case (Inl e)
    with s have u: "query_loop E p username profile_name (query # qs) st
                   = query_loop E p username profile_name qs st1" for qs
      by (simp add: st1_def)
    from Cons.prems have "bm_score (best (query_loop E p username profile_name before st1)) < 50"
      by (simp only: u)
    from Cons.IH[OF this] show ?thesis by (simp only: u append_Cons)
  next
    case (Inr search_results)
    let ?scan = "if search_results \<noteq> []
                 then scan_results E p username profile_name search_results else Inr None"
    show ?thesis
    proof (cases ?scan)
      case (Inl e)
      with s Inr have u: "query_loop E p username profile_name (query # qs) st
                   = query_loop E p username profile_name qs st1" for qs
        by (simp add: st1_def)
      from Cons.prems have "bm_score (best (query_loop E p username profile_name before st1)) < 50"
        by (simp only: u)
      from Cons.IH[OF this] show ?thesis by (simp only: u append_Cons)
    next
      case found: (Inr found)
      define st2 where "st2 = (case found of None \<Rightarrow> st1
                                | Some m \<Rightarrow> st1\<lparr>best := m, history := history st1 @ [m]\<rparr>)"
      from s Inr found have u: "query_loop E p username profile_name (query # qs) st
              = (if 50 \<le> bm_score (best st2) then st2
                 else query_loop E p username profile_name qs st2)" for qs
        by (cases found) (simp_all add: st1_def st2_def Let_def)
      show ?thesis
      proof (cases "50 \<le> bm_score (best st2)")
        case True
        with Cons.prems u[of before] show ?thesis by simp
      next
        case False
        with Cons.prems u[of before]
        have "bm_score (best (query_loop E p username profile_name before st2)) < 50" by simp
        from Cons.IH[OF this] False u[of before] u[of "before @ rest"] show ?thesis by simp
      qed
    qed
  qed
qed

lemma query_loop_sound:
  "(history (query_loop E p username profile_name queries st) = history st
      \<and> best (query_loop E p username profile_name queries st) = best st)
   \<or> (\<exists>result clean_url s.
          filter_url p (r_url result) = Some clean_url
        \<and> enhanced_name_match E clean_url username profile_name = Inr True
        \<and> calculate_match_score E username profile_name (r_title result) clean_url = Inr s
        \<and> history (query_loop E p username profile_name queries st)
            = history st @ [floored result clean_url s]
        \<and> best (query_loop E p username profile_name queries st) = floored result clean_url s)"
proof (induction queries arbitrary: st)
  case Nil
  then show ?case by simp
next
  case (Cons query queries)
  obtain outcome w' where s: "search_with_requests E query p (world st) = (outcome, w')"
    by (cases "search_with_requests E query p (world st)")
  define st1 where "st1 = st\<lparr>issued := issued st @ [query], world := w'\<rparr>"
  have h1: "history st1 = history st" "best st1 = best st" by (simp_all add: st1_def)
  note ih = Cons.IH[of st1, unfolded h1]
  show ?case
  proof (cases outcome)
    case (Inl e)
    with s have "query_loop E p username profile_name (query # queries) st
                 = query_loop E p username profile_name queries st1"
      by (simp add: st1_def)
    with ih show ?thesis by simp
  next
    case (Inr search_results)
    let ?scan = "if search_results \<noteq> []
                 then scan_results E p username profile_name search_results else Inr None"
    show ?thesis
    proof (cases ?scan)
      case (Inl e)
      with s Inr have "query_loop E p username profile_name (query # queries) st
                   = query_loop E p username profile_name queries st1"
        by (simp add: st1_def)
      with ih show ?thesis by simp
    next
      case found: (Inr found)
      show ?thesis
      proof (cases found)
        case None
        with s Inr found have "query_loop E p username profile_name (query # queries) st
              = (if 50 \<le> bm_score (best st1) then st1
                 else query_loop E p username profile_name queries st1)"
          by (simp add: st1_def Let_def)
        with ih h1 show ?thesis by (cases "50 \<le> bm_score (best st1)") simp_all
      next
        case (Some m)
        with found have sc: "scan_results E p username profile_name search_results = Inr (Some m)"
          by (simp split: if_splits)
        from s Inr have "search_with_requests E query p (world st) = (Inr search_results, w')"
          by simp
        from query_loop_step_match[OF this sc]
        have q: "query_loop E p username profile_name (query # queries) st
              = st\<lparr>issued := issued st @ [query], world := w', best := m,
                   history := history st @ [m]\<rparr>" .
        from scan_results_sound[OF sc] obtain result clean_url s' where
          "filter_url p (r_url result) = Some clean_url"
          "enhanced_name_match E clean_url username profile_name = Inr True"
          "calculate_match_score E username profile_name (r_title result) clean_url = Inr s'"
          "m = floored result clean_url s'" by blast
        then show ?thesis unfolding q
          by (intro disjI2 exI[of _ result] exI[of _ clean_url] exI[of _ s']) simp
      qed
    qed
  qed
qed

lemma history_tail_floored:
  assumes m: "m \<in> set (tl (history (platform_pass E p username profile_name queries w)))"
  shows "\<exists>result clean_url s.
             filter_url p (r_url result) = Some clean_url
           \<and> enhanced_name_match E clean_url username profile_name = Inr True
           \<and> calculate_match_score E username profile_name (r_title result) clean_url = Inr s
           \<and> m = floored result clean_url s"
proof -
  let ?i = "\<lparr>best = initial_best_match, history = [initial_best_match], issued = [], world = w\<rparr>"
  have pp: "platform_pass E p username profile_name queries w
              = query_loop E p username profile_name queries ?i"
    by (simp add: platform_pass_def)
  have "history (query_loop E p username profile_name queries ?i) = history ?i
        \<or> (\<exists>r c t. filter_url p (r_url r) = Some c
              \<and> enhanced_name_match E c username profile_name = Inr True
              \<and> calculate_match_score E username profile_name (r_title r) c = Inr t
              \<and> history (query_loop E p username profile_name queries ?i)
                   = history ?i @ [floored r c t])"
    using query_loop_sound[of E p username profile_name queries ?i] by blast
  moreover have "history (query_loop E p username profile_name queries ?i) \<noteq> history ?i"
    using m pp by auto
  ultimately obtain r c t where rct: "filter_url p (r_url r) = Some c"
        "enhanced_name_match E c username profile_name = Inr True"
        "calculate_match_score E username profile_name (r_title r) c = Inr t"
        "history (query_loop E p username profile_name queries ?i)
           = history ?i @ [floored r c t]"
    by blast
  with m pp have "m = floored r c t" by simp
  with rct(1,2,3) show ?thesis
    by (intro exI[of _ r] exI[of _ c] exI[of _ t]) simp
qed

lemma reported_floored:
  "(score_of p (fst (find_channels_for_user E username profile_name url w)) = 0
      \<and> url_of p (fst (find_channels_for_user E username profile_name url w)) = None)
   \<or> (\<exists>(result::search_result) clean_url s.
          filter_url p (r_url result) = Some clean_url
        \<and> enhanced_name_match E clean_url username profile_name = Inr True
        \<and> calculate_match_score E username profile_name (r_title result) clean_url = Inr s
        \<and> score_of p (fst (find_channels_for_user E username profile_name url w))
            = (if s < 50 then 50 else s)
        \<and> url_of p (fst (find_channels_for_user E username profile_name url w)) = Some clean_url)"
proof -
  let ?qs = "search_queries username profile_name url"
  let ?w = "pass_start E username profile_name ?qs p w"
  let ?i = "\<lparr>best = initial_best_match, history = [initial_best_match], issued = [], world = ?w\<rparr>"
  let ?st = "platform_pass E p username profile_name ?qs ?w"
  have pp: "?st = query_loop E p username profile_name ?qs ?i"
    by (simp add: platform_pass_def)
  note fc = find_channels_platform[of p E username profile_name url w]
  have "best ?st = best ?i
        \<or> (\<exists>r c t. filter_url p (r_url r) = Some c
              \<and> enhanced_name_match E c username profile_name = Inr True
              \<and> calculate_match_score E username profile_name (r_title r) c = Inr t
              \<and> best ?st = floored r c t)"
    unfolding pp using query_loop_sound[of E p username profile_name ?qs ?i] by blast
  then show ?thesis
  proof
    assume "best ?st = best ?i"
    then have "best ?st = initial_best_match" by simp
    with fc show ?thesis by (simp add: Let_def initial_best_match_def)
  next
    assume "\<exists>r c t. filter_url p (r_url r) = Some c
              \<and> enhanced_name_match E c username profile_name = Inr True
              \<and> calculate_match_score E username profile_name (r_title r) c = Inr t
              \<and> best ?st = floored r c t"
    then obtain r c t where rct: "filter_url p (r_url r) = Some c"
        "enhanced_name_match E c username profile_name = Inr True"
        "calculate_match_score E username profile_name (r_title r) c = Inr t"
        "best ?st = floored r c t" by blast
    from fc rct(4) have "score_of p (fst (find_channels_for_user E username profile_name url w))
            = (if t < 50 then 50 else t)"
      and "url_of p (fst (find_channels_for_user E username profile_name url w)) = Some c"
      by (simp_all add: Let_def)
    with rct(1,2,3) show ?thesis
      by (intro disjI2 exI[of _ r] exI[of _ c] exI[of _ t]) simp
  qed
qed

text \<open>
  Claim C2: whenever, in a platform pass, a query is searched after earlier queries
  that left no match, and the first result of its page that is neither filtered out nor
  rejected by the matcher is accepted with the computed score \<open>s\<close>, the best match of the
  pass is this result with the score \<open>s\<close> if \<open>s\<close> is at least 50 and exactly 50 if \<open>s\<close> is
  below 50; this is the one value recorded in the pass, and it is the score and the URL
  that \<open>find_channels_for_user\<close> reports for the platform. Conversely, every value that
  \<open>best_match\<close> takes after its initial one is such a floored score of a result that the
  matcher accepted, and the score reported for a platform is 0 with no URL or such a
  floored score with the URL of that result; so no accepted match is recorded or
  reported with a score below 50.
\<close>

theorem accepted_match_floor:
  assumes "bm_score (best (platform_pass E p username profile_name before w)) < 50"
    and "search_with_requests E query p (world (platform_pass E p username profile_name before w))
           = (Inr (skipped @ result # later), w1)"
    and "\<forall>x\<in>set skipped.
           filter_url p (r_url x) = None
           \<or> (\<exists>c. filter_url p (r_url x) = Some c
                  \<and> enhanced_name_match E c username profile_name = Inr False)"
    and "filter_url p (r_url result) = Some clean_url"
    and "enhanced_name_match E clean_url username profile_name = Inr True"
    and "calculate_match_score E username profile_name (r_title result) clean_url = Inr s"
  shows "best (platform_pass E p username profile_name (before @ query # queries) w)
           = \<lparr>bm_score = (if s < 50 then 50 else s), bm_title = Some (r_title result),
              bm_url = Some clean_url\<rparr>
    \<and> history (platform_pass E p username profile_name (before @ query # queries) w)
           = [\<lparr>bm_score = 0, bm_title = None, bm_url = None\<rparr>,
              \<lparr>bm_score = (if s < 50 then 50 else s), bm_title = Some (r_title result),
               bm_url = Some clean_url\<rparr>]
    \<and> (s < 50 \<longrightarrow>
          bm_score (best (platform_pass E p username profile_name (before @ query # queries) w)) = 50)
    \<and> (search_queries username profile_name url = before @ query # queries
         \<and> pass_start E username profile_name (before @ query # queries) p w0 = w
        \<longrightarrow> score_of p (fst (find_channels_for_user E username profile_name url w0))
              = (if s < 50 then 50 else s)
          \<and> url_of p (fst (find_channels_for_user E username profile_name url w0)) = Some clean_url)
    \<and> (\<forall>m\<in>set (tl (history (platform_pass E p username profile_name any_queries any_w))).
          \<exists>(result'::search_result) clean_url' s'.
             filter_url p (r_url result') = Some clean_url'
           \<and> enhanced_name_match E clean_url' username profile_name = Inr True
           \<and> calculate_match_score E username profile_name (r_title result') clean_url' = Inr s'
           \<and> m = \<lparr>bm_score = (if s' < 50 then 50 else s'), bm_title = Some (r_title result'),
                   bm_url = Some clean_url'\<rparr>)
    \<and> ((score_of p (fst (find_channels_for_user E username profile_name any_url any_w0)) = 0
          \<and> url_of p (fst (find_channels_for_user E username profile_name any_url any_w0)) = None)
       \<or> (\<exists>(result'::search_result) clean_url' s'.
             filter_url p (r_url result') = Some clean_url'
           \<and> enhanced_name_match E clean_url' username profile_name = Inr True
           \<and> calculate_match_score E username profile_name (r_title result') clean_url' = Inr s'
           \<and> score_of p (fst (find_channels_for_user E username profile_name any_url any_w0))
               = (if s' < 50 then 50 else s')
           \<and> url_of p (fst (find_channels_for_user E username profile_name any_url any_w0))
               = Some clean_url'))"
proof -
  let ?init = "\<lparr>best = initial_best_match, history = [initial_best_match], issued = [], world = w\<rparr>"
  let ?st = "platform_pass E p username profile_name before w"
  let ?m = "floored result clean_url s"
  have st: "?st = query_loop E p username profile_name before ?init"
    by (simp add: platform_pass_def)
  have hist: "history ?st = [initial_best_match]"
    using platform_pass_outcome[of E p username profile_name before w] assms(1)
    by (auto simp: accepted_match_def)
  have skip: "\<forall>x\<in>set skipped. match_result E p username profile_name x = Inr None"
    using assms(3) match_result_rejected[of p _ E username profile_name] by blast
  have "match_result E p username profile_name result = Inr (Some ?m)"
    by (rule match_result_computed[OF assms(4,5,6)])
  then have scan: "scan_results E p username profile_name (skipped @ result # later) = Inr (Some ?m)"
    by (rule scan_results_skip[OF skip])
  have "platform_pass E p username profile_name (before @ query # queries) w
        = query_loop E p username profile_name (query # queries) ?st"
    unfolding platform_pass_def
    using assms(1) by (intro query_loop_append) (simp add: st)
  also have "\<dots> = ?st\<lparr>issued := issued ?st @ [query], world := w1, best := ?m,
                        history := history ?st @ [?m]\<rparr>"
    by (rule query_loop_step_match[OF assms(2) scan])
  finally have pass: "platform_pass E p username profile_name (before @ query # queries) w
        = ?st\<lparr>issued := issued ?st @ [query], world := w1, best := ?m,
               history := history ?st @ [?m]\<rparr>" .
  have conv: "\<forall>m\<in>set (tl (history (platform_pass E p username profile_name any_queries any_w))).
          \<exists>(result'::search_result) clean_url' s'.
             filter_url p (r_url result') = Some clean_url'
           \<and> enhanced_name_match E clean_url' username profile_name = Inr True
           \<and> calculate_match_score E username profile_name (r_title result') clean_url' = Inr s'
           \<and> m = \<lparr>bm_score = (if s' < 50 then 50 else s'), bm_title = Some (r_title result'),
                   bm_url = Some clean_url'\<rparr>"
    by (rule ballI) (rule history_tail_floored)
  show ?thesis
  proof (intro conjI impI)
    show "best (platform_pass E p username profile_name (before @ query # queries) w) = ?m"
      by (simp add: pass)
    show "history (platform_pass E p username profile_name (before @ query # queries) w)
           = [\<lparr>bm_score = 0, bm_title = None, bm_url = None\<rparr>, ?m]"
      by (simp add: pass hist initial_best_match_def)
  next
    assume "s < 50"
    then show "bm_score (best (platform_pass E p username profile_name (before @ query # queries) w)) = 50"
      by (simp add: pass)
  next
    assume a: "search_queries username profile_name url = before @ query # queries
         \<and> pass_start E username profile_name (before @ query # queries) p w0 = w"
    then have b: "best (platform_pass E p username profile_name (search_queries username profile_name url)
                   (pass_start E username profile_name (search_queries username profile_name url) p w0)) = ?m"
      using pass by simp
    show "score_of p (fst (find_channels_for_user E username profile_name url w0))
              = (if s < 50 then 50 else s)"
      using find_channels_platform[of p E username profile_name url w0] b by (simp add: Let_def)
    show "url_of p (fst (find_channels_for_user E username profile_name url w0)) = Some clean_url"
      using find_channels_platform[of p E username profile_name url w0] b by (simp add: Let_def)
  qed (rule conv, rule reported_floored)
qed

theorem accepted_match_floor_witness:
  "best (platform_pass example_env Twitch ''alice'' ''Alice W''
           [quoted ''alice'', quoted ''Alice W'', ''alice Alice W''] 1)
     = \<lparr>bm_score = 50, bm_title = Some ''alice - Twitch'',
        bm_url = Some ''https://www.twitch.tv/alice''\<rparr>
   \<and> score_of Twitch (fst (find_channels_for_user example_env ''alice'' ''Alice W''
                              ''https://x.com/alicew'' 0)) = 50
   \<and> calculate_match_score example_env ''alice'' ''Alice W'' ''alice - Twitch''
        ''https://www.twitch.tv/alice'' = Inr 30"
proof -
  let ?r = "\<lparr>r_title = ''alice - Twitch'', r_url = ''https://www.twitch.tv/alice'', r_snippet = []\<rparr>"
  let ?before = "[quoted ''alice'']"
  let ?after = "[''alice Alice W'']"
  have h1: "bm_score (best (platform_pass example_env Twitch ''alice'' ''Alice W'' ?before 1)) < 50"
    by code_simp
  have h2: "search_with_requests example_env (quoted ''Alice W'') Twitch
              (world (platform_pass example_env Twitch ''alice'' ''Alice W'' ?before 1))
            = (Inr ([] @ ?r # []), 3)"
    by code_simp
  have h3: "\<forall>x\<in>set []. filter_url Twitch (r_url x) = None
           \<or> (\<exists>c. filter_url Twitch (r_url x) = Some c
                  \<and> enhanced_name_match example_env c ''alice'' ''Alice W'' = Inr False)"
    by simp
  have h4: "filter_url Twitch (r_url ?r) = Some ''https://www.twitch.tv/alice''"
    by code_simp
  have h5: "enhanced_name_match example_env ''https://www.twitch.tv/alice'' ''alice'' ''Alice W'' = Inr True"
    by code_simp
  have h6: "calculate_match_score example_env ''alice'' ''Alice W'' (r_title ?r)
              ''https://www.twitch.tv/alice'' = Inr 30"
    by code_simp
  have h7: "search_queries ''alice'' ''Alice W'' ''https://x.com/alicew''
              = ?before @ quoted ''Alice W'' # ?after
            \<and> pass_start example_env ''alice'' ''Alice W''
                (?before @ quoted ''Alice W'' # ?after) Twitch 0 = 1"
    by code_simp
  have h8: "calculate_match_score example_env ''alice'' ''Alice W'' ''alice - Twitch''
        ''https://www.twitch.tv/alice'' = Inr 30"
    by code_simp
  have l: "?before @ quoted ''Alice W'' # ?after
             = [quoted ''alice'', quoted ''Alice W'', ''alice Alice W'']"
    by simp
  have r: "r_title ?r = ''alice - Twitch''" by simp
  note f = accepted_match_floor[OF h1 h2 h3 h4 h5 h6, of ?after "''https://x.com/alicew''" 0 "[]" 0 "[]" 0]
  note a = f[THEN conjunct1]
  note b = mp[OF f[THEN conjunct2, THEN conjunct2, THEN conjunct2, THEN conjunct1] h7, THEN conjunct1]
  from a have "best (platform_pass example_env Twitch ''alice'' ''Alice W''
           [quoted ''alice'', quoted ''Alice W'', ''alice Alice W''] 1)
     = \<lparr>bm_score = 50, bm_title = Some ''alice - Twitch'',
        bm_url = Some ''https://www.twitch.tv/alice''\<rparr>"
    unfolding l r by simp
  moreover from b have "score_of Twitch (fst (find_channels_for_user example_env ''alice'' ''Alice W''
                              ''https://x.com/alicew'' 0)) = 50"
    by simp
  ultimately show ?thesis using h8 by (intro conjI)
qed


section \<open>The best match during one platform pass\<close>

text \<open>
  Claim C6: during one platform pass the best match starts at score 0 with no URL, and
  the scores of the values it takes, in order, never decrease: each replacement is by a
  match whose recorded score is at least the current one. The last of these values is
  the best match at the end of the pass.
\<close>

theorem best_match_monotone:
  "hd (history (platform_pass E p username profile_name queries w))
     = \<lparr>bm_score = 0, bm_title = None, bm_url = None\<rparr>
   \<and> sorted_wrt (\<lambda>a b. bm_score a \<le> bm_score b)
        (history (platform_pass E p username profile_name queries w))
   \<and> last (history (platform_pass E p username profile_name queries w))
       = best (platform_pass E p username profile_name queries w)"
  using platform_pass_outcome[of E p username profile_name queries w]
  by (auto simp: initial_best_match_def accepted_match_def)

theorem best_match_monotone_witness:
  "history (platform_pass example_env Youtube ''alice'' ''Alice W''
              [quoted ''alice'', quoted ''Alice W'', ''alice Alice W''] 0)
     = [\<lparr>bm_score = 0, bm_title = None, bm_url = None\<rparr>,
        \<lparr>bm_score = 80, bm_title = Some ''Alice W'', bm_url = Some ''https://www.youtube.com/@alicew''\<rparr>]
   \<and> sorted_wrt (\<lambda>a b. bm_score a \<le> bm_score b)
        (history (platform_pass example_env Youtube ''alice'' ''Alice W''
                    [quoted ''alice'', quoted ''Alice W'', ''alice Alice W''] 0))"
proof -
  have "history (platform_pass example_env Youtube ''alice'' ''Alice W''
              [quoted ''alice'', quoted ''Alice W'', ''alice Alice W''] 0)
     = [\<lparr>bm_score = 0, bm_title = None, bm_url = None\<rparr>,
        \<lparr>bm_score = 80, bm_title = Some ''Alice W'', bm_url = Some ''https://www.youtube.com/@alicew''\<rparr>]"
    by code_simp
  then show ?thesis
    using best_match_monotone
            [of example_env Youtube "''alice''" "''Alice W''"
                "[quoted ''alice'', quoted ''Alice W'', ''alice Alice W'']" 0]
    by blast
qed

section \<open>The early exit\<close>

text \<open>
  Claim C3: if, for the first query of a platform pass, the first result that passes the
  platform's filter is accepted by the matcher with a computed score of 80, then the
  only search issued in this pass is the one for the first query (the world after the
  pass is the world right after that search), the best match has score 80 and the
  accepted URL, and the score and URL that \<open>find_channels_for_user\<close> returns for this
  platform are exactly these, whatever the later results and the later queries hold.
\<close>

theorem first_match_short_circuits:
  assumes "search_with_requests E query p w = (Inr (skipped @ result # later), w1)"
    and "\<forall>x\<in>set skipped. filter_url p (r_url x) = None"
    and "filter_url p (r_url result) = Some clean_url"
    and "enhanced_name_match E clean_url username profile_name = Inr True"
    and "calculate_match_score E username profile_name (r_title result) clean_url = Inr 80"
  shows "issued (platform_pass E p username profile_name (query # queries) w) = [query]
    \<and> world (platform_pass E p username profile_name (query # queries) w) = w1
    \<and> bm_score (best (platform_pass E p username profile_name (query # queries) w)) = 80
    \<and> bm_url (best (platform_pass E p username profile_name (query # queries) w)) = Some clean_url
    \<and> (search_queries username profile_name url = query # queries
         \<and> pass_start E username profile_name (query # queries) p w0 = w
        \<longrightarrow> score_of p (fst (find_channels_for_user E username profile_name url w0)) = 80
          \<and> url_of p (fst (find_channels_for_user E username profile_name url w0)) = Some clean_url)"
proof -
  let ?m = "\<lparr>bm_score = 80, bm_title = Some (r_title result), bm_url = Some clean_url\<rparr>"
  have "match_result E p username profile_name result = Inr (Some ?m)"
    using match_result_computed[OF assms(3,4,5)] by simp
  then have scan: "scan_results E p username profile_name (skipped @ result # later) = Inr (Some ?m)"
    by (rule scan_results_first[OF assms(2)])
  have pass: "platform_pass E p username profile_name (query # queries) w
        = \<lparr>best = ?m, history = [initial_best_match, ?m], issued = [query], world = w1\<rparr>"
    using assms(1) scan by (simp add: platform_pass_def)
  show ?thesis
  proof (intro conjI impI)
    assume "search_queries username profile_name url = query # queries
         \<and> pass_start E username profile_name (query # queries) p w0 = w"
    then have "best (platform_pass E p username profile_name (search_queries username profile_name url)
                   (pass_start E username profile_name (search_queries username profile_name url) p w0)) = ?m"
      using pass by simp
    then show "score_of p (fst (find_channels_for_user E username profile_name url w0)) = 80"
      and "url_of p (fst (find_channels_for_user E username profile_name url w0)) = Some clean_url"
      using find_channels_platform[of p E username profile_name url w0] by (simp_all add: Let_def)
  qed (simp_all add: pass)
qed

theorem first_match_short_circuits_witness:
  "issued (platform_pass example_env Youtube ''alice'' ''Alice W''
             [quoted ''alice'', quoted ''Alice W'', ''alice Alice W''] 0) = [quoted ''alice'']
   \<and> score_of Youtube (fst (find_channels_for_user example_env ''alice'' ''Alice W''
                               ''https://x.com/alicew'' 0)) = 80
   \<and> calculate_match_score example_env ''alice'' ''Alice W'' ''Alice Two''
        ''https://www.youtube.com/@alice2'' = Inr 95"
proof -
  let ?r1 = "\<lparr>r_title = ''Alice W live'', r_url = ''https://www.youtube.com/watch?v=abc'', r_snippet = []\<rparr>"
  let ?r2 = "\<lparr>r_title = ''Alice W'', r_url = ''https://www.youtube.com/@alicew'', r_snippet = []\<rparr>"
  let ?r3 = "\<lparr>r_title = ''Alice Two'', r_url = ''https://www.youtube.com/@alice2'', r_snippet = []\<rparr>"
  let ?qs = "[quoted ''Alice W'', ''alice Alice W'']"
  have h1: "search_with_requests example_env (quoted ''alice'') Youtube 0
              = (Inr ([?r1] @ ?r2 # [?r3]), 1)"
    by code_simp
  have h2: "\<forall>x\<in>set [?r1]. filter_url Youtube (r_url x) = None"
    by code_simp
  have h3: "filter_url Youtube (r_url ?r2) = Some ''https://www.youtube.com/@alicew''"
    by code_simp
  have h4: "enhanced_name_match example_env ''https://www.youtube.com/@alicew'' ''alice'' ''Alice W'' = Inr True"
    by code_simp
  have h5: "calculate_match_score example_env ''alice'' ''Alice W'' (r_title ?r2)
              ''https://www.youtube.com/@alicew'' = Inr 80"
    by code_simp
  have h6: "search_queries ''alice'' ''Alice W'' ''https://x.com/alicew'' = quoted ''alice'' # ?qs
            \<and> pass_start example_env ''alice'' ''Alice W'' (quoted ''alice'' # ?qs) Youtube 0 = 0"
    by code_simp
  have h7: "calculate_match_score example_env ''alice'' ''Alice W'' ''Alice Two''
        ''https://www.youtube.com/@alice2'' = Inr 95"
    by code_simp
  from first_match_short_circuits[OF h1 h2 h3 h4 h5, of ?qs "''https://x.com/alicew''" 0] h6 h7
  show ?thesis by blast
qed

section \<open>URL and score in the output rows\<close>

text \<open>
  Claim C1: in the output of the batch, for every row (also a row written after the
  finder raised) and for each platform, the URL column is non-empty if and only if the
  score column is at least 50. The finder is any call that either raises or returns what
  \<open>find_channels_for_user\<close> computes.
\<close>

theorem url_iff_score:
  assumes "\<forall>u p l w0 ch. fst (F u p l w0) = Inr ch \<longrightarrow> ch = fst (find_channels_for_user E u p l w0)"
    and "fst (process_users_with_real_logic F progress_bar df w) = Inr outs"
  shows "\<forall>out\<in>set outs. url_matches_score out ''youtube_url'' ''youtube_score''
                        \<and> url_matches_score out ''twitch_url'' ''twitch_score''"
proof
  fix out assume "out \<in> set outs"
  from process_users_rows[OF assms(2) this] obtain u p l f where
    "out = empty_result_row u p l f
       \<or> (\<exists>ch w0. fst (F u p l w0) = Inr ch \<and> out = result_row u p l f ch)" by blast
  then show "url_matches_score out ''youtube_url'' ''youtube_score''
                        \<and> url_matches_score out ''twitch_url'' ''twitch_score''"
  proof
    assume "out = empty_result_row u p l f"
    then show ?thesis using empty_row_matches by simp
  next
    assume "\<exists>ch w0. fst (F u p l w0) = Inr ch \<and> out = result_row u p l f ch"
    then obtain ch w0 where c: "fst (F u p l w0) = Inr ch" "out = result_row u p l f ch" by blast
    with assms(1) have "ch = fst (find_channels_for_user E u p l w0)" by blast
    from result_row_matches[OF this] c(2) show ?thesis by simp
  qed
qed

theorem url_iff_score_witness:
  "fst (process_users_with_real_logic example_finder example_progress example_table 0) = Inr example_output
   \<and> list_all (\<lambda>out. url_matches_score out ''youtube_url'' ''youtube_score''
                     \<and> url_matches_score out ''twitch_url'' ''twitch_score'') example_output"
proof -
  have run: "fst (process_users_with_real_logic example_finder example_progress example_table 0) = Inr example_output"
    by code_simp
  have hyp: "\<forall>u p l w0 ch. fst (example_finder u p l w0) = Inr ch
               \<longrightarrow> ch = fst (find_channels_for_user example_env u p l w0)"
    by (auto simp: example_finder_def channel_finder_def split: if_splits prod.splits)
  from url_iff_score[OF hyp run] run show ?thesis by (simp add: list_all_iff)
qed

section \<open>The rows of the batch output\<close>


text \<open>
  The progress report before \<open>try\<close> ends the batch for a table whose index labels are
  not numbers, and, with a progress bar that refuses a fraction above 1, for a table whose
  integer labels are not the positions, even though the table has the required columns.
\<close>

lemma other_index_aborts:
  "list_all has_required_columns [alice_row]
   \<and> process_users_with_real_logic example_finder example_progress [(Str_label ''alice'', alice_row)] 0
       = (Inl TypeError, 0)
   \<and> process_users_with_real_logic example_finder example_progress [(Int_label 5, alice_row)] 0
       = (Inl Exception, 0)"
  by code_simp



end
